theory Spec2Isabelle
  imports Complex_Main "HOL-Library.AList" "HOL-Library.Word"
begin

section \<open>Fleet registry: data model (master\_controller/camera\_manager.py)\<close>

text \<open>
  Timestamps (\<^verbatim>\<open>time.time()\<close>, Python floats) are the reals they denote. In the registry
  they are stored and compared, and the age of a heartbeat is computed without rounding;
  the arithmetic of the clock client is rounded, see its section. A device id is what
  \<^verbatim>\<open>dict.get("node_id")\<close> yields
  for a JSON object whose field is an integer or absent: \<open>Id i\<close> or Python's \<^verbatim>\<open>None\<close>.
  The same type serves for \<^verbatim>\<open>current_preview_node\<close>, which Python compares with \<^verbatim>\<open>==\<close>
  against device ids and which is \<^verbatim>\<open>None\<close> when no device is designated.

  Each coroutine is modelled as it runs from its first statement to its return: what the
  event loop could run in between, while the coroutine awaits, is not interleaved. What the
  network and the clock do is a parameter of each operation. Log statements are left out
  except where evaluating their message can raise.
\<close>

datatype pyid = NoneId | Id int

text \<open>The status strings listed at the \<^verbatim>\<open>CameraNode.status\<close> field.\<close>

datatype node_status = Offline | Online | Ready | Capturing | Error

record CameraNode =
  node_id :: pyid
  ip_address :: "string option"
  node_port :: int
  status :: node_status
  last_heartbeat :: real
  is_ready :: bool
  capabilities :: "(string \<times> bool) list"

text \<open>
  \<^verbatim>\<open>self.nodes\<close> is a Python dict: insertion ordered, a store to an existing key keeps its
  place, a store to a new key appends. That is an association list with \<open>AList.update\<close>;
  mutation of a stored node object is \<open>AList.map_entry\<close>.
\<close>

type_synonym node_dict = "(pyid \<times> CameraNode) list"

record CameraManager =
  nodes :: node_dict
  current_preview_node :: pyid
  next_node_id :: int

definition init_manager :: CameraManager where
  "init_manager = \<lparr>nodes = [], current_preview_node = NoneId, next_node_id = 1\<rparr>"

definition has_key :: "'k \<Rightarrow> ('k \<times> 'v) list \<Rightarrow> bool" where
  "has_key k d = (k \<in> set (map fst d))"

text \<open>The two properties every Python dict of nodes built by this class has:
  keys are unique, and each node is stored under its own \<^verbatim>\<open>node_id\<close>.\<close>

definition wf_nodes :: "node_dict \<Rightarrow> bool" where
  "wf_nodes d = (distinct (map fst d) \<and> list_all (\<lambda>(k, n). node_id n = k) d)"

subsection \<open>Id allocation and registration\<close>

text \<open>The key of the measure: ids at or above the counter that are still to be skipped.\<close>

definition ids_from :: "int \<Rightarrow> node_dict \<Rightarrow> pyid list" where
  "ids_from n d = filter (\<lambda>k. case k of NoneId \<Rightarrow> False | Id i \<Rightarrow> n \<le> i) (map fst d)"

text \<open>\<^verbatim>\<open>while self.next_node_id in self.nodes: self.next_node_id += 1\<close>\<close>

function skip_used_ids :: "node_dict \<Rightarrow> int \<Rightarrow> int" where
  "skip_used_ids d n = (if has_key (Id n) d then skip_used_ids d (n + 1) else n)"
  by pat_completeness auto
termination
proof (relation "measure (\<lambda>(d, n). length (ids_from n d))")
  show "wf (measure (\<lambda>(d, n). length (ids_from n d)))" by simp
next
  fix d :: node_dict and n :: int
  assume "has_key (Id n) d"
  then have "length (ids_from (n + 1) d) < length (ids_from n d)"
  proof (induction d)
    case Nil
    then show ?case by (simp add: has_key_def)
  next
    case (Cons p d)
    have mono: "length (ids_from (n + 1) d) \<le> length (ids_from n d)" for d :: node_dict
      by (induction d) (auto simp: ids_from_def split: pyid.splits)
    show ?case
    proof (cases "fst p = Id n")
      case True
      then show ?thesis using mono [of d] by (simp add: ids_from_def)
    next
      case False
      then have "has_key (Id n) d" using Cons.prems by (auto simp: has_key_def)
      then have "length (ids_from (n + 1) d) < length (ids_from n d)" by (rule Cons.IH)
      then show ?thesis by (auto simp: ids_from_def split: pyid.splits)
    qed
  qed
  then show "((d, n + 1), d, n) \<in> measure (\<lambda>(d, n). length (ids_from n d))" by simp
qed

definition allocate_node_id :: "CameraManager \<Rightarrow> int \<times> CameraManager" where
  "allocate_node_id m =
     (let n = skip_used_ids (nodes m) (next_node_id m);
          allocated_id = n
      in (allocated_id, m\<lparr>next_node_id := n + 1\<rparr>))"

text \<open>The JSON body of a registration or online notice, field by field as \<^verbatim>\<open>.get\<close> sees it.\<close>

record node_data =
  nd_node_id :: pyid
  nd_local_ip :: "string option"
  nd_node_port :: "int option"
  nd_capabilities :: "(string \<times> bool) list option"

datatype reg_error = Missing_ip

datatype register_result = Register_failed reg_error | Registered int

definition register_node :: "real \<Rightarrow> node_data \<Rightarrow> CameraManager \<Rightarrow> register_result \<times> CameraManager" where
  "register_node now node_data m =
     (let local_ip = nd_local_ip node_data;
          port = (case nd_node_port node_data of None \<Rightarrow> 8084 | Some p \<Rightarrow> p);
          caps = (case nd_capabilities node_data of None \<Rightarrow> [] | Some c \<Rightarrow> c)
      in if local_ip = None \<or> local_ip = Some [] then (Register_failed Missing_ip, m)
         else
           let (nid, m1) = allocate_node_id m;
               node = \<lparr>node_id = Id nid, ip_address = local_ip, node_port = port,
                        status = Online, last_heartbeat = now, is_ready = False,
                        capabilities = caps\<rparr>;
               m2 = m1\<lparr>nodes := AList.update (Id nid) node (nodes m1)\<rparr>;
               m3 = (if current_preview_node m2 = NoneId
                     then m2\<lparr>current_preview_node := Id nid\<rparr> else m2)
           in (Registered nid, m3))"

text \<open>\<^verbatim>\<open>node_online\<close>: update the stored node, or create one under the given id.\<close>

definition node_online :: "real \<Rightarrow> node_data \<Rightarrow> CameraManager \<Rightarrow> CameraManager" where
  "node_online now node_data m =
     (let nid = nd_node_id node_data;
          local_ip = nd_local_ip node_data;
          port = (case nd_node_port node_data of None \<Rightarrow> 8084 | Some p \<Rightarrow> p);
          caps = (case nd_capabilities node_data of None \<Rightarrow> [] | Some c \<Rightarrow> c)
      in if has_key nid (nodes m)
         then m\<lparr>nodes := AList.map_entry nid
                   (\<lambda>node. node\<lparr>ip_address := local_ip, node_port := port, status := Online,
                                  last_heartbeat := now, capabilities := caps\<rparr>) (nodes m)\<rparr>
         else m\<lparr>nodes := AList.update nid
                   \<lparr>node_id = nid, ip_address = local_ip, node_port = port,
                    status = Online, last_heartbeat = now, is_ready = False,
                    capabilities = caps\<rparr> (nodes m)\<rparr>)"

subsection \<open>Offline notices, heartbeats, the timeout monitor\<close>

text \<open>\<^verbatim>\<open>for node_id, node in self.nodes.items(): if node.status == "online": ...; return\<close>\<close>

definition switch_to_next_online_node :: "CameraManager \<Rightarrow> CameraManager" where
  "switch_to_next_online_node m =
     (case find (\<lambda>(k, node). status node = Online) (nodes m) of
        Some (k, node) \<Rightarrow> m\<lparr>current_preview_node := k\<rparr>
      | None \<Rightarrow> m\<lparr>current_preview_node := NoneId\<rparr>)"

datatype offline_reply = Offline_handled

definition node_offline :: "node_data \<Rightarrow> CameraManager \<Rightarrow> offline_reply \<times> CameraManager" where
  "node_offline node_data m =
     (let nid = nd_node_id node_data in
      if has_key nid (nodes m) then
        let m1 = m\<lparr>nodes := AList.map_entry nid (\<lambda>node. node\<lparr>status := Offline\<rparr>) (nodes m)\<rparr>;
            m2 = m1\<lparr>nodes := AList.map_entry nid (\<lambda>node. node\<lparr>is_ready := False\<rparr>) (nodes m1)\<rparr>;
            m3 = (if current_preview_node m2 = nid then switch_to_next_online_node m2 else m2)
        in (Offline_handled, m3)
      else (Offline_handled, m))"

text \<open>The heartbeat body: \<^verbatim>\<open>node_id\<close> and \<^verbatim>\<open>is_ready\<close> (default \<^verbatim>\<open>False\<close>).\<close>

record heartbeat_data =
  hb_node_id :: pyid
  hb_is_ready :: "bool option"

definition update_heartbeat :: "real \<Rightarrow> heartbeat_data \<Rightarrow> CameraManager \<Rightarrow> CameraManager" where
  "update_heartbeat now hb m =
     (let nid = hb_node_id hb;
          ready = (case hb_is_ready hb of None \<Rightarrow> False | Some b \<Rightarrow> b)
      in if has_key nid (nodes m)
         then m\<lparr>nodes := AList.map_entry nid
                   (\<lambda>node. let node1 = node\<lparr>last_heartbeat := now, is_ready := ready\<rparr>
                            in if status node1 = Offline then node1\<lparr>status := Online\<rparr> else node1)
                   (nodes m)\<rparr>
         else m)"

text \<open>
  One pass of the monitor's \<^verbatim>\<open>for node in self.nodes.values()\<close>. The node objects are
  mutated in place while the dict keeps its shape: \<open>seen\<close> holds the entries already
  visited (as they are now), the list being recursed on the entries still to visit, and
  \<^verbatim>\<open>self.nodes\<close> is at every moment \<open>seen\<close> followed by the rest.
\<close>

fun heartbeat_scan :: "real \<Rightarrow> node_dict \<Rightarrow> node_dict \<Rightarrow> CameraManager \<Rightarrow> CameraManager" where
  "heartbeat_scan current_time seen [] m = m"
| "heartbeat_scan current_time seen ((k, node) # rest) m =
     (if current_time - last_heartbeat node > 30 then
        if status node \<noteq> Offline then
          let node' = node\<lparr>status := Offline, is_ready := False\<rparr>;
              m1 = m\<lparr>nodes := seen @ (k, node') # rest\<rparr>;
              m2 = (if current_preview_node m1 = node_id node'
                    then switch_to_next_online_node m1 else m1)
          in heartbeat_scan current_time (seen @ [(k, node')]) rest m2
        else heartbeat_scan current_time (seen @ [(k, node)]) rest m
      else heartbeat_scan current_time (seen @ [(k, node)]) rest m)"

definition heartbeat_tick :: "real \<Rightarrow> CameraManager \<Rightarrow> CameraManager" where
  "heartbeat_tick current_time m = heartbeat_scan current_time [] (nodes m) m"

text \<open>The monitor loop, as the sequence of its passes: one pass per clock reading
  \<^verbatim>\<open>current_time = time.time()\<close>, in order.\<close>

definition heartbeat_monitor :: "real list \<Rightarrow> CameraManager \<Rightarrow> CameraManager" where
  "heartbeat_monitor ticks m = fold heartbeat_tick ticks m"

section \<open>Clock synchronisation and scheduling (shared/ntp\_sync.py)\<close>

text \<open>
  Python floats. The clock client computes with floats: each addition and subtraction
  returns the exact result rounded to a representable double. That rounding is a parameter
  \<open>fl\<close> of the operations below (the clock readings and the delay are given as the
  reals they denote).

  Formatting a timestamp. \<^verbatim>\<open>format_time\<close> is
  \<^verbatim>\<open>datetime.fromtimestamp(timestamp).strftime("%Y-%m-%d %H:%M:%S.%f")[:-3]\<close>, and
  \<^verbatim>\<open>fromtimestamp\<close> raises outside the range of dates the platform supports (years 1 to
  9999 at most). What the library call yields is a parameter: the text, or \<open>None\<close> when
  it raises. The log statements that format a timestamp evaluate their f-string before
  logging, so the exception leaves the function that logs.
\<close>

type_synonym datetime_lib = "real \<Rightarrow> string option"

definition format_time :: "datetime_lib \<Rightarrow> real \<Rightarrow> string option" where
  "format_time lib timestamp = map_option (\<lambda>s. take (length s - 3) s) (lib timestamp)"

datatype raised = Format_time_raised

record NTPClient =
  servers :: "string list"
  time_offset :: real
  last_sync :: real

definition init_ntp_client :: NTPClient where
  "init_ntp_client = \<lparr>servers = [''pool.ntp.org'', ''time.nist.gov'', ''time.google.com'',
                                   ''cn.pool.ntp.org''],
                       time_offset = 0, last_sync = 0\<rparr>"

text \<open>
  The network, as \<^verbatim>\<open>get_ntp_time\<close> sees it: for a server and the local clock at the moment
  the request is sent, the 32-bit seconds field of the reply (bytes 40..43), or \<open>None\<close> for
  whatever makes the body raise (timeout, name resolution, short reply); and the local
  clock at the moment the call returns.
\<close>

type_synonym ntp_net = "string \<Rightarrow> real \<Rightarrow> 32 word option \<times> real"

definition get_ntp_time :: "ntp_net \<Rightarrow> string \<Rightarrow> real \<Rightarrow> real option \<times> real" where
  "get_ntp_time net server now =
     (case net server now of
        (None, now') \<Rightarrow> (None, now')
      | (Some timestamp, now') \<Rightarrow> (Some (real_of_int (uint timestamp - 2208988800)), now'))"

text \<open>
  \<^verbatim>\<open>sync_time\<close>: the \<^verbatim>\<open>for server in self.servers\<close> loop. \<^verbatim>\<open>if ntp_time:\<close> is Python
  truthiness: \<^verbatim>\<open>None\<close> and \<^verbatim>\<open>0.0\<close> are both false. The result is the returned flag, the
  client, the local clock on return, and the servers queried, in order.
\<close>

fun sync_loop :: "(real \<Rightarrow> real) \<Rightarrow> ntp_net \<Rightarrow> string list \<Rightarrow> NTPClient \<Rightarrow> real \<Rightarrow> string list
                  \<Rightarrow> bool \<times> NTPClient \<times> real \<times> string list" where
  "sync_loop fl net [] c now asked = (False, c, now, asked)"
| "sync_loop fl net (server # rest) c now asked =
     (case get_ntp_time net server now of
        (Some ntp_time, now') \<Rightarrow>
          if ntp_time \<noteq> 0 then
            let local_time = now'
            in (True, c\<lparr>time_offset := fl (ntp_time - local_time), last_sync := local_time\<rparr>,
                now', asked @ [server])
          else sync_loop fl net rest c now' (asked @ [server])
      | (None, now') \<Rightarrow> sync_loop fl net rest c now' (asked @ [server]))"

definition sync_time :: "(real \<Rightarrow> real) \<Rightarrow> ntp_net \<Rightarrow> NTPClient \<Rightarrow> real
                         \<Rightarrow> bool \<times> NTPClient \<times> real \<times> string list" where
  "sync_time fl net c now = sync_loop fl net (servers c) c now []"

definition get_synchronized_time :: "(real \<Rightarrow> real) \<Rightarrow> NTPClient \<Rightarrow> real \<Rightarrow> real" where
  "get_synchronized_time fl c now = fl (now + time_offset c)"

definition is_synchronized :: "(real \<Rightarrow> real) \<Rightarrow> NTPClient \<Rightarrow> real \<Rightarrow> real \<Rightarrow> bool" where
  "is_synchronized fl c now max_age =
     (if last_sync c = 0 then False else fl (now - last_sync c) < max_age)"

text \<open>\<^verbatim>\<open>schedule_capture\<close>. The result is what the call returns (the capture time) or
  raises (the log statement formats the capture time), then the client, the local clock
  on return and the servers queried: a sync that has run is not undone by the exception.\<close>

definition schedule_capture ::
  "(real \<Rightarrow> real) \<Rightarrow> datetime_lib \<Rightarrow> ntp_net \<Rightarrow> NTPClient \<Rightarrow> real \<Rightarrow> string \<Rightarrow> real
   \<Rightarrow> (raised + real) \<times> NTPClient \<times> real \<times> string list" where
  "schedule_capture fl lib net c now session_id delay_seconds =
     (let (c1, now1, asked) =
            (if \<not> is_synchronized fl c now 300 then snd (sync_time fl net c now)
             else (c, now, []));
          current_time = get_synchronized_time fl c1 now1;
          capture_time = fl (current_time + delay_seconds)
      in case format_time lib capture_time of
           None \<Rightarrow> (Inl Format_time_raised, c1, now1, asked)
         | Some logged \<Rightarrow> (Inr capture_time, c1, now1, asked))"

text \<open>
  \<^verbatim>\<open>wait_for_capture_time\<close>. The synchronized clock is the environment: \<open>clk k\<close> is what
  the \<open>k\<close>-th call of \<^verbatim>\<open>get_synchronized_time()\<close> in this wait returns (so what a sleep,
  the scheduler and a concurrent re-sync do to the clock is in \<open>clk\<close>). The loop need not
  end; the result is the trace of sleeps and of the callback, and whether the callback's
  exception left the loop.
\<close>

datatype wait_event = Sleep real | Fire real

datatype callback_outcome = Returns | Raises

partial_function (option) wait_loop ::
  "(nat \<Rightarrow> real) \<Rightarrow> real \<Rightarrow> callback_outcome option \<Rightarrow> nat \<Rightarrow> wait_event list
   \<Rightarrow> (wait_event list \<times> bool) option" where
  "wait_loop clk capture_time callback k trace =
     (let current_time = clk k;
          time_diff = capture_time - current_time
      in if time_diff \<le> 0 then
           (case callback of
              None \<Rightarrow> Some (trace, False)
            | Some outcome \<Rightarrow> Some (trace @ [Fire current_time], outcome = Raises))
         else if time_diff > 1 then
           wait_loop clk capture_time callback (Suc k) (trace @ [Sleep 1])
         else wait_loop clk capture_time callback (Suc k) (trace @ [Sleep time_diff]))"

definition wait_for_capture_time ::
  "(nat \<Rightarrow> real) \<Rightarrow> real \<Rightarrow> callback_outcome option \<Rightarrow> (wait_event list \<times> bool) option" where
  "wait_for_capture_time clk capture_time callback = wait_loop clk capture_time callback 0 []"

text \<open>\<^verbatim>\<open>generate_session_id\<close>: \<^verbatim>\<open>f"capture_{int(time.time() * 1000)}"\<close>; \<^verbatim>\<open>int\<close> truncates
  towards zero.\<close>

fun dec_digits :: "nat \<Rightarrow> string" where
  "dec_digits n = (if n < 10 then [char_of (48 + n)]
                   else dec_digits (n div 10) @ [char_of (48 + n mod 10)])"

definition py_str_int :: "int \<Rightarrow> string" where
  "py_str_int i = (if i < 0 then CHR ''-'' # dec_digits (nat (- i)) else dec_digits (nat i))"

definition py_int :: "real \<Rightarrow> int" where
  "py_int x = (if 0 \<le> x then \<lfloor>x\<rfloor> else \<lceil>x\<rceil>)"

definition generate_session_id :: "real \<Rightarrow> string" where
  "generate_session_id now = ''capture_'' @ py_str_int (py_int (now * 1000))"

section \<open>Readiness check and dispatch (master\_controller/camera\_manager.py)\<close>

text \<open>What the \<^verbatim>\<open>GET /ready\<close> of a node yields: status 200 with the body's \<^verbatim>\<open>ready\<close> field
  (absent: \<open>None\<close>), another status, or an exception (timeout, refused connection).\<close>

datatype probe_reply = Probe_200 "bool option" | Probe_other_status | Probe_exception

type_synonym probe_env = "CameraNode \<Rightarrow> probe_reply"

definition check_node_ready :: "probe_env \<Rightarrow> node_dict \<Rightarrow> pyid \<Rightarrow> bool" where
  "check_node_ready probe d nid =
     (case map_of d nid of
        None \<Rightarrow> False
      | Some node \<Rightarrow>
          if status node \<noteq> Online then False
          else (case probe node of
                  Probe_200 r \<Rightarrow> (case r of None \<Rightarrow> False | Some b \<Rightarrow> b)
                | Probe_other_status \<Rightarrow> False
                | Probe_exception \<Rightarrow> False))"

text \<open>\<^verbatim>\<open>check_all_nodes_ready\<close>: the loop over \<^verbatim>\<open>self.nodes.values()\<close>, with the visited
  entries in \<open>seen\<close> as in the monitor's pass.\<close>

fun check_ready_scan :: "probe_env \<Rightarrow> node_dict \<Rightarrow> node_dict \<Rightarrow> (pyid \<times> bool) list
                         \<Rightarrow> (pyid \<times> bool) list \<times> node_dict" where
  "check_ready_scan probe seen [] ready_status = (ready_status, seen)"
| "check_ready_scan probe seen ((k, node) # rest) ready_status =
     (if status node = Online then
        let ready = check_node_ready probe (seen @ (k, node) # rest) (node_id node)
        in check_ready_scan probe (seen @ [(k, node\<lparr>is_ready := ready\<rparr>)]) rest
             (AList.update (node_id node) ready ready_status)
      else check_ready_scan probe (seen @ [(k, node\<lparr>is_ready := False\<rparr>)]) rest
             (AList.update (node_id node) False ready_status))"

definition check_all_nodes_ready :: "probe_env \<Rightarrow> CameraManager \<Rightarrow> (pyid \<times> bool) list \<times> CameraManager" where
  "check_all_nodes_ready probe m =
     (let (ready_status, d) = check_ready_scan probe [] (nodes m) []
      in (ready_status, m\<lparr>nodes := d\<rparr>))"

record ScheduledCaptureCommand =
  cmd_capture_time :: real
  cmd_session_id :: string
  cmd_delay_seconds :: real

text \<open>What the \<^verbatim>\<open>POST /capture\<close> to a node yields: status 200 with the body's
  \<^verbatim>\<open>success\<close> field, another status, or an exception.\<close>

datatype send_reply = Send_200 "bool option" | Send_other_status int | Send_exception

type_synonym send_env = "CameraNode \<Rightarrow> ScheduledCaptureCommand \<Rightarrow> send_reply"

text \<open>\<^verbatim>\<open>send_capture_command\<close>: the returned flag, and the POST it issued (none for an id
  that is not in the registry).\<close>

definition send_capture_command ::
  "send_env \<Rightarrow> node_dict \<Rightarrow> pyid \<Rightarrow> ScheduledCaptureCommand
   \<Rightarrow> bool \<times> (pyid \<times> ScheduledCaptureCommand) list" where
  "send_capture_command send d nid command =
     (case map_of d nid of
        None \<Rightarrow> (False, [])
      | Some node \<Rightarrow>
          (case send node command of
             Send_200 r \<Rightarrow> (case r of None \<Rightarrow> False | Some b \<Rightarrow> b)
           | Send_other_status code \<Rightarrow> False
           | Send_exception \<Rightarrow> False,
           [(nid, command)]))"

text \<open>\<^verbatim>\<open>for node_id in ready_nodes: ... send_results[node_id] = success\<close>\<close>

fun send_to_all ::
  "send_env \<Rightarrow> node_dict \<Rightarrow> ScheduledCaptureCommand \<Rightarrow> pyid list \<Rightarrow> (pyid \<times> bool) list
   \<Rightarrow> (pyid \<times> ScheduledCaptureCommand) list
   \<Rightarrow> (pyid \<times> bool) list \<times> (pyid \<times> ScheduledCaptureCommand) list" where
  "send_to_all send d command [] send_results posts = (send_results, posts)"
| "send_to_all send d command (nid # rest) send_results posts =
     (let (success, issued) = send_capture_command send d nid command
      in send_to_all send d command rest (AList.update nid success send_results)
           (posts @ issued))"

datatype trigger_result =
    No_ready_nodes "(pyid \<times> bool) list"
  | Capture_scheduled string real "pyid list" "(pyid \<times> bool) list" string

text \<open>The call returned a dict whose \<^verbatim>\<open>success\<close> entry is true.\<close>

definition trigger_success :: "raised + trigger_result \<Rightarrow> bool" where
  "trigger_success r =
     (case r of
        Inl e \<Rightarrow> False
      | Inr (No_ready_nodes rs) \<Rightarrow> False
      | Inr (Capture_scheduled s t ns rs formatted) \<Rightarrow> True)"

text \<open>
  \<^verbatim>\<open>trigger_scheduled_capture\<close>. \<open>now\<close> is the local clock when the readiness checks are
  done. The result is the returned dict, or the exception that leaves the call (nothing
  in it catches what \<^verbatim>\<open>schedule_capture\<close> or the \<^verbatim>\<open>capture_time_formatted\<close> entry
  raises); then the manager, the clock client, and the capture POSTs issued, in order.
\<close>

definition trigger_scheduled_capture ::
  "probe_env \<Rightarrow> send_env \<Rightarrow> (real \<Rightarrow> real) \<Rightarrow> datetime_lib \<Rightarrow> ntp_net \<Rightarrow> NTPClient \<Rightarrow> real
   \<Rightarrow> CameraManager \<Rightarrow> real
   \<Rightarrow> (raised + trigger_result) \<times> CameraManager \<times> NTPClient
      \<times> (pyid \<times> ScheduledCaptureCommand) list" where
  "trigger_scheduled_capture probe send fl lib net c now m delay_seconds =
     (let (ready_status, m1) = check_all_nodes_ready probe m;
          ready_nodes = map fst (filter (\<lambda>(nid, ready). ready) ready_status)
      in if ready_nodes = [] then (Inr (No_ready_nodes ready_status), m1, c, [])
         else
           let session_id = generate_session_id now;
               (scheduled, c1, now1, asked) =
                  schedule_capture fl lib net c now session_id delay_seconds
           in case scheduled of
                Inl e \<Rightarrow> (Inl e, m1, c1, [])
              | Inr capture_time \<Rightarrow>
                  let command = \<lparr>cmd_capture_time = capture_time, cmd_session_id = session_id,
                                  cmd_delay_seconds = delay_seconds\<rparr>;
                      (send_results, posts) =
                         send_to_all send (nodes m1) command ready_nodes [] []
                  in case format_time lib capture_time of
                       None \<Rightarrow> (Inl Format_time_raised, m1, c1, posts)
                     | Some formatted \<Rightarrow>
                         (Inr (Capture_scheduled session_id capture_time ready_nodes
                                 send_results formatted), m1, c1, posts))"

section \<open>Device-side capture agent (camera\_node/node\_server.py)\<close>

text \<open>The body of \<^verbatim>\<open>POST /capture\<close>: not a JSON object (\<^verbatim>\<open>request.json()\<close> or \<^verbatim>\<open>.get\<close>
  raises), or an object whose two fields are read with \<^verbatim>\<open>.get\<close>.\<close>

record capture_body =
  cb_capture_time :: "real option"
  cb_session_id :: "string option"

datatype request_body = Not_json | Json capture_body

datatype agent_error = Missing_parameters | Camera_not_ready | Handler_exception

datatype capture_response =
    Rejected nat agent_error
  | Accepted string real pyid

text \<open>A task is the coroutine \<^verbatim>\<open>execute_scheduled_capture(capture_time, session_id)\<close>.\<close>

type_synonym task = "real \<times> string"

record NodeServer =
  config_node_id :: pyid
  camera_initialized :: bool
  scheduled_captures :: "(string \<times> task) list"

definition camera_is_ready :: "NodeServer \<Rightarrow> bool" where
  "camera_is_ready srv = camera_initialized srv"

text \<open>Python truthiness of the two fields: \<^verbatim>\<open>not capture_time\<close>, \<^verbatim>\<open>not session_id\<close>.\<close>

definition py_not_number :: "real option \<Rightarrow> bool" where
  "py_not_number v = (case v of None \<Rightarrow> True | Some x \<Rightarrow> x = 0)"

definition py_not_string :: "string option \<Rightarrow> bool" where
  "py_not_string v = (case v of None \<Rightarrow> True | Some s \<Rightarrow> s = [])"

text \<open>\<^verbatim>\<open>capture_handler\<close>. The task is created and stored before the log statement formats
  the capture time; what that raises is caught by the handler's \<^verbatim>\<open>except\<close> and answered
  with 500, the task staying stored.\<close>

definition capture_handler ::
  "datetime_lib \<Rightarrow> request_body \<Rightarrow> NodeServer \<Rightarrow> capture_response \<times> NodeServer" where
  "capture_handler lib request srv =
     (case request of
        Not_json \<Rightarrow> (Rejected 500 Handler_exception, srv)
      | Json data \<Rightarrow>
          let capture_time = cb_capture_time data;
              session_id = cb_session_id data
          in if py_not_number capture_time \<or> py_not_string session_id
             then (Rejected 400 Missing_parameters, srv)
             else if \<not> camera_is_ready srv then (Rejected 400 Camera_not_ready, srv)
             else
               let task = (the capture_time, the session_id);
                   srv1 = srv\<lparr>scheduled_captures :=
                                AList.update (the session_id) task (scheduled_captures srv)\<rparr>
               in case format_time lib (the capture_time) of
                    None \<Rightarrow> (Rejected 500 Handler_exception, srv1)
                  | Some logged \<Rightarrow>
                      (Accepted (the session_id) (the capture_time) (config_node_id srv),
                       srv1))"

text \<open>\<^verbatim>\<open>perform_capture\<close>: what \<^verbatim>\<open>capture_image\<close> and the upload did decides the log only;
  every exception is caught inside, so the callback returns.\<close>

datatype capture_result = Image_path string | No_image | Capture_raises

datatype upload_result = Upload_ok | Upload_refused | Upload_http_error | Upload_raises

datatype agent_log = Log_captured string | Log_capture_failed | Log_capture_exception
  | Log_upload_ok | Log_upload_failed | Log_upload_http_error | Log_upload_exception

definition upload_image_to_master :: "upload_result \<Rightarrow> agent_log list" where
  "upload_image_to_master upl =
     (case upl of
        Upload_ok \<Rightarrow> [Log_upload_ok]
      | Upload_refused \<Rightarrow> [Log_upload_failed]
      | Upload_http_error \<Rightarrow> [Log_upload_http_error]
      | Upload_raises \<Rightarrow> [Log_upload_exception])"

definition perform_capture :: "capture_result \<Rightarrow> upload_result \<Rightarrow> agent_log list \<times> callback_outcome" where
  "perform_capture cap upl =
     (case cap of
        Image_path p \<Rightarrow> (Log_captured p # upload_image_to_master upl, Returns)
      | No_image \<Rightarrow> ([Log_capture_failed], Returns)
      | Capture_raises \<Rightarrow> ([Log_capture_exception], Returns))"

text \<open>
  \<^verbatim>\<open>execute_scheduled_capture\<close>: the wait with \<^verbatim>\<open>perform_capture\<close> as callback, inside
  \<^verbatim>\<open>try ... except ... finally\<close>. \<open>None\<close>: the wait never returns. Otherwise the server
  after the \<^verbatim>\<open>finally\<close> block, the wait's trace and the log.
\<close>

definition execute_scheduled_capture ::
  "(nat \<Rightarrow> real) \<Rightarrow> capture_result \<Rightarrow> upload_result \<Rightarrow> NodeServer \<Rightarrow> real \<Rightarrow> string
   \<Rightarrow> (NodeServer \<times> wait_event list \<times> agent_log list) option" where
  "execute_scheduled_capture clk cap upl srv capture_time session_id =
     (case wait_for_capture_time clk capture_time (Some (snd (perform_capture cap upl))) of
        None \<Rightarrow> None
      | Some (trace, raised) \<Rightarrow>
          Some (if has_key session_id (scheduled_captures srv)
                then srv\<lparr>scheduled_captures := AList.delete session_id (scheduled_captures srv)\<rparr>
                else srv,
                trace, fst (perform_capture cap upl)))"

section \<open>Notions used to state the properties\<close>

text \<open>The first entry, in dict order, whose status is online; \<open>NoneId\<close> when there is none.\<close>

definition first_online :: "node_dict \<Rightarrow> pyid" where
  "first_online d = (case find (\<lambda>(k, node). status node = Online) d of
                      Some (k, node) \<Rightarrow> k | None \<Rightarrow> NoneId)"

text \<open>What one pass of the monitor does to one entry.\<close>

definition expire :: "real \<Rightarrow> pyid \<times> CameraNode \<Rightarrow> pyid \<times> CameraNode" where
  "expire t e = (if t - last_heartbeat (snd e) > 30 \<and> status (snd e) \<noteq> Offline
                 then (fst e, (snd e)\<lparr>status := Offline, is_ready := False\<rparr>) else e)"

text \<open>A registration body passes the \<^verbatim>\<open>if not local_ip\<close> guard.\<close>

definition has_ip :: "node_data \<Rightarrow> bool" where
  "has_ip nd = (nd_local_ip nd \<noteq> None \<and> nd_local_ip nd \<noteq> Some [])"

text \<open>Every positive id below the allocation counter is held by a tracked device. The
  counter starts at 1, only \<^verbatim>\<open>allocate_node_id\<close> moves it, and no entry is ever deleted,
  so every state the registry reaches satisfies this.\<close>

definition ids_dense :: "CameraManager \<Rightarrow> bool" where
  "ids_dense m = (1 \<le> next_node_id m \<and>
                  list_all (\<lambda>i. has_key (Id i) (nodes m)) [1..next_node_id m - 1])"

text \<open>A sequence of \<^verbatim>\<open>register_node\<close> calls, each with its clock reading; the replies in
  order and the final registry.\<close>

fun register_all :: "(real \<times> node_data) list \<Rightarrow> CameraManager \<Rightarrow> register_result list \<times> CameraManager" where
  "register_all [] m = ([], m)"
| "register_all ((now, nd) # rest) m =
     (let (r, m1) = register_node now nd m;
          (rs, m2) = register_all rest m1
      in (r # rs, m2))"

text \<open>Every source of the list, asked in order from local clock \<open>now\<close>, is passed over
  by \<^verbatim>\<open>sync_time\<close>: it gives no answer, or it answers the time 0.\<close>

fun all_passed_over :: "ntp_net \<Rightarrow> string list \<Rightarrow> real \<Rightarrow> bool" where
  "all_passed_over net [] now = True"
| "all_passed_over net (server # rest) now =
     (case get_ntp_time net server now of
        (None, now') \<Rightarrow> all_passed_over net rest now'
      | (Some t, now') \<Rightarrow> t = 0 \<and> all_passed_over net rest now')"

text \<open>The local clock after the sources of the list have been asked in order.\<close>

fun clock_after :: "ntp_net \<Rightarrow> string list \<Rightarrow> real \<Rightarrow> real" where
  "clock_after net [] now = now"
| "clock_after net (server # rest) now = clock_after net rest (snd (net server now))"

text \<open>What is used of the rounding of float arithmetic: it keeps the order, and it leaves
  its own results (the representable numbers) as they are. Both hold of the rounding to
  nearest of IEEE 754 doubles.\<close>

definition float_rounding :: "(real \<Rightarrow> real) \<Rightarrow> bool" where
  "float_rounding fl = ((\<forall>x y. x \<le> y \<longrightarrow> fl x \<le> fl y) \<and> (\<forall>x. fl (fl x) = fl x))"

text \<open>The capture time that \<^verbatim>\<open>schedule_capture\<close> computes for a delay.\<close>

definition planned_capture_time ::
  "(real \<Rightarrow> real) \<Rightarrow> ntp_net \<Rightarrow> NTPClient \<Rightarrow> real \<Rightarrow> real \<Rightarrow> real" where
  "planned_capture_time fl net c now delay =
     (let st = (if is_synchronized fl c now 300 then (c, now, [])
                else snd (sync_time fl net c now))
      in fl (get_synchronized_time fl (fst st) (fst (snd st)) + delay))"

text \<open>Every sleep of the wait lasts at least as long as it was asked to, on the
  synchronized clock: while the clock is before \<open>t\<close>, the next reading is at least the
  requested sleep later.\<close>

definition sleeps_elapse :: "(nat \<Rightarrow> real) \<Rightarrow> real \<Rightarrow> bool" where
  "sleeps_elapse clk t = (\<forall>k. clk k < t \<longrightarrow> clk k + min 1 (t - clk k) \<le> clk (Suc k))"

text \<open>How often the callback was invoked.\<close>

definition fires :: "wait_event list \<Rightarrow> nat" where
  "fires trace = length (filter (\<lambda>e. case e of Fire c \<Rightarrow> True | Sleep d \<Rightarrow> False) trace)"

text \<open>What the readiness check records for a node: it is online and its probe answered
  200 with \<^verbatim>\<open>ready\<close> true.\<close>

definition probe_ready :: "probe_env \<Rightarrow> CameraNode \<Rightarrow> bool" where
  "probe_ready probe node =
     (status node = Online \<and>
      (case probe node of Probe_200 r \<Rightarrow> (case r of None \<Rightarrow> False | Some b \<Rightarrow> b)
                        | Probe_other_status \<Rightarrow> False | Probe_exception \<Rightarrow> False))"

text \<open>The flag a reply to the capture POST is recorded as.\<close>

definition send_flag :: "send_reply \<Rightarrow> bool" where
  "send_flag reply =
     (case reply of Send_200 r \<Rightarrow> (case r of None \<Rightarrow> False | Some b \<Rightarrow> b)
                  | Send_other_status code \<Rightarrow> False | Send_exception \<Rightarrow> False)"

text \<open>The ready set of a readiness snapshot, in its order.\<close>

definition ready_set :: "(pyid \<times> bool) list \<Rightarrow> pyid list" where
  "ready_set ready_status = map fst (filter (\<lambda>(nid, ready). ready) ready_status)"

text \<open>The registries that the operations of the manager build from the empty one, one
  operation at a time.\<close>

inductive reachable :: "CameraManager \<Rightarrow> bool" where
  start: "reachable init_manager"
| register: "reachable m \<Longrightarrow> reachable (snd (register_node now nd m))"
| online: "reachable m \<Longrightarrow> reachable (node_online now nd m)"
| offline: "reachable m \<Longrightarrow> reachable (snd (node_offline nd m))"
| heartbeat: "reachable m \<Longrightarrow> reachable (update_heartbeat now hb m)"
| monitor: "reachable m \<Longrightarrow> reachable (heartbeat_tick now m)"
| check_ready: "reachable m \<Longrightarrow> reachable (snd (check_all_nodes_ready probe m))"

subsection \<open>Concrete inputs\<close>

definition ex_node :: "int \<Rightarrow> node_status \<Rightarrow> real \<Rightarrow> bool \<Rightarrow> CameraNode" where
  "ex_node i st hb rdy = \<lparr>node_id = Id i, ip_address = Some ''10.0.0.1'', node_port = 8084,
     status = st, last_heartbeat = hb, is_ready = rdy, capabilities = []\<rparr>"

definition ex_manager :: CameraManager where
  "ex_manager = \<lparr>nodes = [(Id 1, ex_node 1 Online 0 True), (Id 2, ex_node 2 Online 100 True),
                           (Id 3, ex_node 3 Online 0 False)],
                  current_preview_node = Id 1, next_node_id = 4\<rparr>"

definition ex_notice :: "pyid \<Rightarrow> node_data" where
  "ex_notice k = \<lparr>nd_node_id = k, nd_local_ip = Some ''10.0.0.1'', nd_node_port = None,
                  nd_capabilities = None\<rparr>"

definition ex_request :: node_data where
  "ex_request = \<lparr>nd_node_id = NoneId, nd_local_ip = Some ''10.0.0.9'', nd_node_port = None,
                  nd_capabilities = None\<rparr>"

text \<open>Rounding to the nearest multiple of \<open>2 ^ -22\<close>: the doubles from \<open>2 ^ 30\<close> to
  \<open>2 ^ 31\<close> (Unix times of the years 2004 to 2038) are exactly these multiples, so on
  results in that range this is the rounding of double arithmetic; it also leaves every
  integer and half-integer unchanged, as double arithmetic does below \<open>2 ^ 31\<close>. Ties are
  rounded up (none occurs below).\<close>

definition binade30 :: "real \<Rightarrow> real" where
  "binade30 x = real_of_int \<lfloor>x * 4194304 + 1 / 2\<rfloor> / 4194304"

text \<open>A platform whose \<^verbatim>\<open>datetime\<close> accepts the timestamps of the years 1 to 9999 (UTC);
  the text it prints plays no part below and is fixed.\<close>

definition ex_datetime :: datetime_lib where
  "ex_datetime t = (if - 62135596800 \<le> t \<and> t < 253402300800
                    then Some ''2025-11-04 12:00:00.000000'' else None)"

text \<open>Source \<open>a\<close> never answers (5 s), source \<open>z\<close> answers the time 0 (2 s), any other
  source answers the time 1000 (1 s).\<close>

definition ex_net :: ntp_net where
  "ex_net server now = (if server = ''a'' then (None, now + 5)
                        else if server = ''z'' then (Some 2208988800, now + 2)
                        else (Some 2208989800, now + 1))"

definition ex_client :: NTPClient where
  "ex_client = \<lparr>servers = [''a'', ''b''], time_offset = 0, last_sync = 0\<rparr>"

definition ex_client_synced :: NTPClient where
  "ex_client_synced = \<lparr>servers = [''a'', ''b''], time_offset = 0, last_sync = 1762271990\<rparr>"

definition ex_clock :: "nat \<Rightarrow> real" where
  "ex_clock k = 10 + real k"

definition ex_probe :: probe_env where
  "ex_probe node = (if node_id node = Id 3 then Probe_exception else Probe_200 (Some True))"

definition ex_probe_down :: probe_env where
  "ex_probe_down node = Probe_exception"

definition ex_send :: send_env where
  "ex_send node command = (if node_id node = Id 1 then Send_exception else Send_200 (Some True))"

definition ex_server :: NodeServer where
  "ex_server = \<lparr>config_node_id = Id 1, camera_initialized = True,
                 scheduled_captures = [(''old'', (5, ''old''))]\<rparr>"

section \<open>Fleet registry: properties\<close>

declare skip_used_ids.simps [simp del]

lemma switch_nodes [simp]: "nodes (switch_to_next_online_node m) = nodes m"
  by (simp add: switch_to_next_online_node_def split: option.splits prod.splits)

lemma switch_next [simp]: "next_node_id (switch_to_next_online_node m) = next_node_id m"
  by (simp add: switch_to_next_online_node_def split: option.splits prod.splits)

lemma switch_preview: "current_preview_node (switch_to_next_online_node m) = first_online (nodes m)"
  by (simp add: switch_to_next_online_node_def first_online_def split: option.splits prod.splits)

lemma scan_nodes:
  "nodes m = seen @ rest \<Longrightarrow> nodes (heartbeat_scan t seen rest m) = seen @ map (expire t) rest"
proof (induction rest arbitrary: seen m)
  case Nil
  then show ?case by simp
next
  case (Cons e rest)
  obtain k node where e: "e = (k, node)" by (cases e)
  show ?case using Cons.prems unfolding e
    by (simp add: Cons.IH expire_def Let_def)
qed

lemma tick_nodes: "nodes (heartbeat_tick t m) = map (expire t) (nodes m)"
  using scan_nodes [of m "[]" "nodes m" t] by (simp add: heartbeat_tick_def)

lemma map_of_expire:
  "map_of (map (expire t) d) k = map_option (\<lambda>n. snd (expire t (k, n))) (map_of d k)"
  by (induction d) (auto simp: expire_def)

lemma first_online_append:
  "first_online (xs @ ys) = (if find (\<lambda>(k, node). status node = Online) xs = None then first_online ys else first_online xs)"
  by (induction xs) (auto simp: first_online_def)

lemma find_online_append:
  "find (\<lambda>(k, node). status node = Online) (xs @ ys) =
     (case find (\<lambda>(k, node). status node = Online) xs of
        None \<Rightarrow> find (\<lambda>(k, node). status node = Online) ys | Some e \<Rightarrow> Some e)"
  by (induction xs) auto

lemma first_online_mark:
  assumes "first_online (seen @ (k, node) # rest) \<noteq> k"
  shows "first_online (seen @ (k, node\<lparr>status := Offline, is_ready := False\<rparr>) # rest)
         = first_online (seen @ (k, node) # rest)"
  using assms by (auto simp: first_online_def find_online_append split: option.splits)

lemma wf_nodes_mark:
  "wf_nodes (seen @ (k, node) # rest) \<Longrightarrow>
   wf_nodes (seen @ (k, node\<lparr>status := Offline, is_ready := False\<rparr>) # rest)"
  by (auto simp: wf_nodes_def)

lemma scan_keeps_preview_inv:
  assumes "nodes m = seen @ rest" and "wf_nodes (nodes m)"
    and "current_preview_node m = first_online (nodes m)"
  shows "current_preview_node (heartbeat_scan t seen rest m)
         = first_online (nodes (heartbeat_scan t seen rest m))"
  using assms
proof (induction rest arbitrary: seen m)
  case Nil
  then show ?case by simp
next
  case (Cons e rest)
  obtain k node where e: "e = (k, node)" by (cases e)
  have nid: "node_id node = k" using Cons.prems(1,2) by (auto simp: wf_nodes_def e)
  show ?case
  proof (cases "t - last_heartbeat node > 30 \<and> status node \<noteq> Offline")
    case False
    then show ?thesis using Cons.prems Cons.IH [of m "seen @ [(k, node)]"]
      by (auto simp: e)
  next
    case True
    let ?node' = "node\<lparr>status := Offline, is_ready := False\<rparr>"
    let ?m1 = "m\<lparr>nodes := seen @ (k, ?node') # rest\<rparr>"
    let ?m2 = "if current_preview_node ?m1 = node_id ?node'
               then switch_to_next_online_node ?m1 else ?m1"
    have step: "heartbeat_scan t seen (e # rest) m
                = heartbeat_scan t (seen @ [(k, ?node')]) rest ?m2"
      using True by (simp add: e Let_def)
    have n2: "nodes ?m2 = (seen @ [(k, ?node')]) @ rest" by simp
    have wf2: "wf_nodes (nodes ?m2)"
      using Cons.prems(1,2) wf_nodes_mark [of seen k node rest] by (simp add: e)
    have p2: "current_preview_node ?m2 = first_online (nodes ?m2)"
    proof (cases "current_preview_node m = k")
      case True
      then show ?thesis by (simp add: nid switch_preview)
    next
      case False
      then have "first_online (seen @ (k, node) # rest) \<noteq> k"
        using Cons.prems(1,3) by (simp add: e)
      from first_online_mark [OF this] False show ?thesis
        using Cons.prems(1,3) by (simp add: nid e)
    qed
    show ?thesis unfolding step by (rule Cons.IH [OF n2 wf2 p2])
  qed
qed

lemma scan_reassigns_preview:
  assumes "nodes m = seen @ rest" and "wf_nodes (nodes m)"
    and "current_preview_node m = k" and "(k, node) \<in> set rest"
    and "t - last_heartbeat node > 30" and "status node \<noteq> Offline"
  shows "current_preview_node (heartbeat_scan t seen rest m)
         = first_online (nodes (heartbeat_scan t seen rest m))"
  using assms
proof (induction rest arbitrary: seen m)
  case Nil
  then show ?case by simp
next
  case (Cons e rest)
  obtain k' node' where e: "e = (k', node')" by (cases e)
  have nid: "node_id node' = k'" using Cons.prems(1,2) by (auto simp: wf_nodes_def e)
  let ?off = "node'\<lparr>status := Offline, is_ready := False\<rparr>"
  let ?m1 = "m\<lparr>nodes := seen @ (k', ?off) # rest\<rparr>"
  show ?case
  proof (cases "k' = k")
    case True
    have "distinct (map fst (seen @ e # rest))" using Cons.prems(1,2) by (simp add: wf_nodes_def)
    then have "node' = node" using Cons.prems(4) True by (force simp: e)
    then have step: "heartbeat_scan t seen (e # rest) m
          = heartbeat_scan t (seen @ [(k', ?off)]) rest (switch_to_next_online_node ?m1)"
      using Cons.prems(3,5,6) True nid by (simp add: e Let_def)
    have n2: "nodes (switch_to_next_online_node ?m1) = (seen @ [(k', ?off)]) @ rest" by simp
    have wf2: "wf_nodes (nodes (switch_to_next_online_node ?m1))"
      using Cons.prems(1,2) wf_nodes_mark [of seen k' node' rest] by (simp add: e)
    have p2: "current_preview_node (switch_to_next_online_node ?m1)
              = first_online (nodes (switch_to_next_online_node ?m1))"
      by (simp add: switch_preview)
    show ?thesis unfolding step by (rule scan_keeps_preview_inv [OF n2 wf2 p2])
  next
    case False
    then have mem: "(k, node) \<in> set rest" using Cons.prems(4) by (auto simp: e)
    show ?thesis
    proof (cases "t - last_heartbeat node' > 30 \<and> status node' \<noteq> Offline")
      case True
      then have step: "heartbeat_scan t seen (e # rest) m
            = heartbeat_scan t (seen @ [(k', ?off)]) rest ?m1"
        using False Cons.prems(3) nid by (auto simp: e Let_def)
      have n2: "nodes ?m1 = (seen @ [(k', ?off)]) @ rest" by simp
      have wf2: "wf_nodes (nodes ?m1)"
        using Cons.prems(1,2) wf_nodes_mark [of seen k' node' rest] by (simp add: e)
      have p2: "current_preview_node ?m1 = k" using Cons.prems(3) by simp
      show ?thesis unfolding step
        by (rule Cons.IH [OF n2 wf2 p2 mem Cons.prems(5,6)])
    next
      case F2: False
      then have step: "heartbeat_scan t seen (e # rest) m
            = heartbeat_scan t (seen @ [(k', node')]) rest m"
        by (auto simp: e)
      have n2: "nodes m = (seen @ [(k', node')]) @ rest" using Cons.prems(1) by (simp add: e)
      show ?thesis unfolding step
        by (rule Cons.IH [OF n2 Cons.prems(2,3) mem Cons.prems(5,6)])
    qed
  qed
qed

lemma has_key_map_of: "has_key k d \<longleftrightarrow> map_of d k \<noteq> None"
  by (simp add: has_key_def map_of_eq_None_iff)

lemma tick_lookup:
  "map_of (nodes (heartbeat_tick t m)) k = map_option (\<lambda>n. snd (expire t (k, n))) (map_of (nodes m) k)"
  by (simp add: tick_nodes map_of_expire)

lemma monitor_within_threshold:
  assumes "map_of (nodes m) k = Some node" and "\<forall>t\<in>set ticks. t - last_heartbeat node \<le> 30"
  shows "map_of (nodes (heartbeat_monitor ticks m)) k = Some node"
  using assms
proof (induction ticks arbitrary: m)
  case Nil
  then show ?case by (simp add: heartbeat_monitor_def)
next
  case (Cons t ticks)
  have "map_of (nodes (heartbeat_tick t m)) k = Some node"
    using Cons.prems by (simp add: tick_lookup expire_def)
  then have "map_of (nodes (heartbeat_monitor ticks (heartbeat_tick t m))) k = Some node"
    using Cons.prems(2) by (intro Cons.IH) auto
  then show ?case by (simp add: heartbeat_monitor_def)
qed

lemma node_offline_lookup:
  assumes "map_of (nodes m) k = Some node" and "nd_node_id nd = k"
  shows "map_of (nodes (snd (node_offline nd m))) k = Some (node\<lparr>status := Offline, is_ready := False\<rparr>)"
  using assms
  by (simp add: node_offline_def has_key_map_of Let_def map_of_map_entry)

lemma node_offline_preview:
  assumes "has_key k (nodes m)" and "nd_node_id nd = k"
  shows "current_preview_node (snd (node_offline nd m)) =
           (if current_preview_node m = k then first_online (nodes (snd (node_offline nd m)))
            else current_preview_node m)"
  using assms
  by (simp add: node_offline_def Let_def switch_preview)

text \<open>\<open>first_online\<close>, spelled out: either no entry is online and it is \<open>NoneId\<close>, or it is
  the key of an online entry before which no entry is online.\<close>

lemma first_online_cases:
  "(first_online d = NoneId \<and> (\<forall>e\<in>set d. status (snd e) \<noteq> Online))
   \<or> (\<exists>i<length d. fst (d ! i) = first_online d \<and> status (snd (d ! i)) = Online
          \<and> (\<forall>j<i. status (snd (d ! j)) \<noteq> Online))"
proof (cases "find (\<lambda>(k, node). status node = Online) d")
  case None
  then have "\<forall>e\<in>set d. status (snd e) \<noteq> Online"
    by (auto simp: find_None_iff)
  then show ?thesis using None by (simp add: first_online_def)
next
  case (Some e)
  then obtain i where i: "i < length d" "status (snd (d ! i)) = Online" "e = d ! i"
    "\<forall>j<i. status (snd (d ! j)) \<noteq> Online"
    by (auto simp: find_Some_iff split_def)
  have "first_online d = fst (d ! i)" using Some i(3) by (simp add: first_online_def split_def)
  then show ?thesis using i by auto
qed

text \<open>
  Claim C8. Marking a device offline, by an offline notice or by the monitor's pass after
  its heartbeat timed out, leaves the device with status offline and \<^verbatim>\<open>is_ready\<close> false.
  If the device was the designated preview device, the designation afterwards is the
  first entry in dict order whose status is online, or none when no entry is online.
\<close>

theorem mark_offline_reassigns_reference:
  assumes "wf_nodes (nodes m)" and "map_of (nodes m) k = Some node"
  shows "(nd_node_id nd = k \<longrightarrow>
           (let m' = snd (node_offline nd m) in
              map_of (nodes m') k = Some (node\<lparr>status := Offline, is_ready := False\<rparr>) \<and>
              (current_preview_node m = k \<longrightarrow> current_preview_node m' = first_online (nodes m'))))
       \<and> (t - last_heartbeat node > 30 \<and> status node \<noteq> Offline \<longrightarrow>
           (let m' = heartbeat_tick t m in
              map_of (nodes m') k = Some (node\<lparr>status := Offline, is_ready := False\<rparr>) \<and>
              (current_preview_node m = k \<longrightarrow> current_preview_node m' = first_online (nodes m'))))"
proof (intro conjI impI)
  assume nd: "nd_node_id nd = k"
  have hk: "has_key k (nodes m)" using assms(2) by (simp add: has_key_map_of)
  show "let m' = snd (node_offline nd m) in
          map_of (nodes m') k = Some (node\<lparr>status := Offline, is_ready := False\<rparr>) \<and>
          (current_preview_node m = k \<longrightarrow> current_preview_node m' = first_online (nodes m'))"
    using node_offline_lookup [OF assms(2) nd] node_offline_preview [OF hk nd]
    by (simp add: Let_def)
next
  assume late: "t - last_heartbeat node > 30 \<and> status node \<noteq> Offline"
  have mem: "(k, node) \<in> set (nodes m)" using assms(2) by (rule map_of_SomeD)
  have look: "map_of (nodes (heartbeat_tick t m)) k = Some (node\<lparr>status := Offline, is_ready := False\<rparr>)"
    using assms(2) late by (simp add: tick_lookup expire_def)
  have pre: "current_preview_node m = k \<Longrightarrow>
             current_preview_node (heartbeat_tick t m) = first_online (nodes (heartbeat_tick t m))"
    unfolding heartbeat_tick_def
    using scan_reassigns_preview [of m "[]" "nodes m" k node t] assms(1) mem late by simp
  show "let m' = heartbeat_tick t m in
          map_of (nodes m') k = Some (node\<lparr>status := Offline, is_ready := False\<rparr>) \<and>
          (current_preview_node m = k \<longrightarrow> current_preview_node m' = first_online (nodes m'))"
    using look pre by (simp add: Let_def)
qed

theorem mark_offline_reassigns_reference_witness:
  "wf_nodes (nodes ex_manager)
   \<and> map_of (nodes ex_manager) (Id 1) = Some (ex_node 1 Online 0 True)
   \<and> 31 - last_heartbeat (ex_node 1 Online 0 True) > 30
   \<and> map_of (nodes (snd (node_offline (ex_notice (Id 1)) ex_manager))) (Id 1)
        = Some (ex_node 1 Offline 0 False)
   \<and> current_preview_node (snd (node_offline (ex_notice (Id 1)) ex_manager)) = Id 2
   \<and> map_of (nodes (heartbeat_tick 31 ex_manager)) (Id 1) = Some (ex_node 1 Offline 0 False)
   \<and> current_preview_node (heartbeat_tick 31 ex_manager) = Id 2"
proof -
  have h1: "wf_nodes (nodes ex_manager)"
    by (simp add: wf_nodes_def ex_manager_def ex_node_def)
  have h2: "map_of (nodes ex_manager) (Id 1) = Some (ex_node 1 Online 0 True)"
    by (simp add: ex_manager_def)
  have h3: "31 - last_heartbeat (ex_node 1 Online 0 True) > 30"
    by (simp add: ex_node_def)
  have e1: "first_online (nodes (snd (node_offline (ex_notice (Id 1)) ex_manager))) = Id 2"
    by (simp add: node_offline_def ex_notice_def ex_manager_def ex_node_def has_key_def
        first_online_def Let_def)
  have e2: "first_online (nodes (heartbeat_tick 31 ex_manager)) = Id 2"
    by (simp add: tick_nodes expire_def ex_manager_def ex_node_def first_online_def)
  show ?thesis
    using h1 h2 h3 e1 e2
      mark_offline_reassigns_reference [OF h1 h2, of "ex_notice (Id 1)" 31]
    by (simp add: ex_node_def ex_notice_def ex_manager_def Let_def)
qed

text \<open>
  Claim C9. Let the monitor run its passes at the clock readings \<open>early\<close> and then at
  \<open>t'\<close>, with nothing else touching the registry. A device whose heartbeat is at most
  30 seconds old at every reading of \<open>early\<close> is exactly as it was after those passes
  (whatever its status); if it is not offline and its heartbeat is more than 30 seconds
  old at \<open>t'\<close>, then after the pass at \<open>t'\<close> it is offline with \<^verbatim>\<open>is_ready\<close> false.
\<close>

theorem heartbeat_timeout_first_tick:
  assumes "map_of (nodes m) k = Some node"
    and "\<forall>t\<in>set early. t - last_heartbeat node \<le> 30"
    and "t' - last_heartbeat node > 30"
  shows "map_of (nodes (heartbeat_monitor early m)) k = Some node
       \<and> (status node \<noteq> Offline \<longrightarrow>
            map_of (nodes (heartbeat_monitor (early @ [t']) m)) k
              = Some (node\<lparr>status := Offline, is_ready := False\<rparr>))"
proof -
  have a: "map_of (nodes (heartbeat_monitor early m)) k = Some node"
    by (rule monitor_within_threshold [OF assms(1,2)])
  have "heartbeat_monitor (early @ [t']) m = heartbeat_tick t' (heartbeat_monitor early m)"
    by (simp add: heartbeat_monitor_def)
  then show ?thesis using a assms(3) by (simp add: tick_lookup expire_def)
qed

theorem heartbeat_timeout_first_tick_witness:
  "map_of (nodes ex_manager) (Id 2) = Some (ex_node 2 Online 100 True)
   \<and> list_all (\<lambda>t. t - last_heartbeat (ex_node 2 Online 100 True) \<le> 30) [110, 120, 130]
   \<and> 140 - last_heartbeat (ex_node 2 Online 100 True) > 30
   \<and> map_of (nodes (heartbeat_monitor [110, 120, 130] ex_manager)) (Id 2)
        = Some (ex_node 2 Online 100 True)
   \<and> map_of (nodes (heartbeat_monitor ([110, 120, 130] @ [140]) ex_manager)) (Id 2)
        = Some (ex_node 2 Offline 100 False)"
proof -
  have h1: "map_of (nodes ex_manager) (Id 2) = Some (ex_node 2 Online 100 True)"
    by (simp add: ex_manager_def)
  have h2: "\<forall>t\<in>set [110, 120, 130]. t - last_heartbeat (ex_node 2 Online 100 True) \<le> 30"
    by (simp add: ex_node_def)
  have h3: "140 - last_heartbeat (ex_node 2 Online 100 True) > 30"
    by (simp add: ex_node_def)
  show ?thesis
    using h1 h2 h3 heartbeat_timeout_first_tick [OF h1 h2 h3]
    by (simp add: ex_node_def)
qed

text \<open>
  Claim C10. A heartbeat or an offline notice whose device id is not a key of the registry
  changes nothing: the registry after it (devices, preview designation, allocation
  counter) is the registry before it; the offline notice is answered with the success
  reply.
\<close>

theorem unknown_id_is_noop:
  assumes "\<not> has_key nid (nodes m)"
  shows "(hb_node_id hb = nid \<longrightarrow> update_heartbeat now hb m = m)
       \<and> (nd_node_id nd = nid \<longrightarrow> node_offline nd m = (Offline_handled, m))"
  using assms by (simp add: update_heartbeat_def node_offline_def)

theorem unknown_id_is_noop_witness:
  "\<not> has_key (Id 7) (nodes ex_manager)
   \<and> update_heartbeat 5 \<lparr>hb_node_id = Id 7, hb_is_ready = Some True\<rparr> ex_manager = ex_manager
   \<and> node_offline (ex_notice (Id 7)) ex_manager = (Offline_handled, ex_manager)"
proof -
  have h: "\<not> has_key (Id 7) (nodes ex_manager)"
    by (simp add: has_key_def ex_manager_def)
  show ?thesis
    using h unknown_id_is_noop [OF h, of "\<lparr>hb_node_id = Id 7, hb_is_ready = Some True\<rparr>" 5 "ex_notice (Id 7)"]
    by (simp add: ex_notice_def)
qed

lemma skip_ge: "n \<le> skip_used_ids d n"
  by (induction d n rule: skip_used_ids.induct) (subst skip_used_ids.simps, auto)

lemma skip_fresh: "\<not> has_key (Id (skip_used_ids d n)) d"
  by (induction d n rule: skip_used_ids.induct) (subst skip_used_ids.simps, auto)

lemma skip_below: "n \<le> i \<Longrightarrow> i < skip_used_ids d n \<Longrightarrow> has_key (Id i) d"
proof (induction d n rule: skip_used_ids.induct)
  case (1 d n)
  show ?case
  proof (cases "has_key (Id n) d")
    case True
    show ?thesis
    proof (cases "i = n")
      case True
      then show ?thesis using \<open>has_key (Id n) d\<close> by simp
    next
      case False
      then have "n + 1 \<le> i" using "1.prems" by simp
      moreover have "i < skip_used_ids d (n + 1)"
        using "1.prems"(2) True by (subst (asm) skip_used_ids.simps) simp
      ultimately show ?thesis using "1.IH" True by simp
    qed
  next
    case False
    then have "skip_used_ids d n = n" by (subst skip_used_ids.simps) simp
    then show ?thesis using "1.prems" by simp
  qed
qed

lemma skip_id: "\<not> has_key (Id n) d \<Longrightarrow> skip_used_ids d n = n"
  by (subst skip_used_ids.simps) simp

lemma has_key_update: "has_key k (AList.update k' v d) \<longleftrightarrow> k = k' \<or> has_key k d"
  using dom_update [of k' v d] by (auto simp: has_key_def)

lemma has_key_map_entry: "has_key k (AList.map_entry k' f d) \<longleftrightarrow> has_key k d"
  using dom_map_entry [of k' f d] by (simp add: has_key_def)

lemma register_node_result:
  assumes "has_ip nd"
  shows "register_node now nd m =
     (let nid = skip_used_ids (nodes m) (next_node_id m);
          node = \<lparr>node_id = Id nid, ip_address = nd_local_ip nd,
                   node_port = (case nd_node_port nd of None \<Rightarrow> 8084 | Some p \<Rightarrow> p),
                   status = Online, last_heartbeat = now, is_ready = False,
                   capabilities = (case nd_capabilities nd of None \<Rightarrow> [] | Some c \<Rightarrow> c)\<rparr>
      in (Registered nid,
          \<lparr>nodes = AList.update (Id nid) node (nodes m),
           current_preview_node = (if current_preview_node m = NoneId then Id nid
                                   else current_preview_node m),
           next_node_id = nid + 1\<rparr>))"
  using assms by (simp add: register_node_def allocate_node_id_def has_ip_def Let_def)

lemma ids_dense_iff:
  "ids_dense m \<longleftrightarrow> 1 \<le> next_node_id m \<and> (\<forall>i. 1 \<le> i \<and> i < next_node_id m \<longrightarrow> has_key (Id i) (nodes m))"
  by (auto simp: ids_dense_def list_all_iff)

lemma register_node_dense:
  assumes "ids_dense m"
  shows "ids_dense (snd (register_node now nd m))"
proof (cases "has_ip nd")
  case False
  then show ?thesis using assms by (auto simp: register_node_def has_ip_def Let_def)
next
  case True
  let ?n = "skip_used_ids (nodes m) (next_node_id m)"
  have ge: "next_node_id m \<le> ?n" by (rule skip_ge)
  have "has_key (Id i) (nodes m) \<or> i = ?n" if "1 \<le> i" "i < ?n + 1" for i
  proof (cases "i < next_node_id m")
    case True
    then show ?thesis using assms that by (simp add: ids_dense_iff)
  next
    case False
    then show ?thesis using skip_below [of "next_node_id m" i "nodes m"] that by auto
  qed
  then show ?thesis using assms ge
    by (auto simp: register_node_result [OF True] Let_def ids_dense_iff has_key_update)
qed

lemma register_node_smallest:
  assumes "ids_dense m" and "has_ip nd"
  shows "\<exists>nid node. register_node now nd m = (Registered nid, snd (register_node now nd m))
           \<and> 1 \<le> nid \<and> \<not> has_key (Id nid) (nodes m)
           \<and> (\<forall>i. 1 \<le> i \<and> i < nid \<longrightarrow> has_key (Id i) (nodes m))
           \<and> map_of (nodes (snd (register_node now nd m))) (Id nid) = Some node
           \<and> status node = Online \<and> node_id node = Id nid"
proof -
  let ?n = "skip_used_ids (nodes m) (next_node_id m)"
  have ge: "next_node_id m \<le> ?n" by (rule skip_ge)
  have below: "has_key (Id i) (nodes m)" if "1 \<le> i" "i < ?n" for i
  proof (cases "i < next_node_id m")
    case True
    then show ?thesis using assms(1) that by (simp add: ids_dense_iff)
  next
    case False
    then show ?thesis using skip_below [of "next_node_id m" i "nodes m"] that by auto
  qed
  have pos: "1 \<le> ?n" using assms(1) ge by (simp add: ids_dense_iff)
  show ?thesis
    using pos below skip_fresh [of "nodes m" "next_node_id m"]
    by (simp add: register_node_result [OF assms(2)] Let_def update_conv')
qed

lemma register_all_fresh:
  assumes "\<forall>i\<ge>next_node_id m. \<not> has_key (Id i) (nodes m)"
    and "list_all (\<lambda>(now, nd). has_ip nd) reqs"
  shows "fst (register_all reqs m)
         = map Registered [next_node_id m..next_node_id m + int (length reqs) - 1]"
  using assms
proof (induction reqs arbitrary: m)
  case Nil
  then show ?case by simp
next
  case (Cons r reqs)
  obtain now nd where r: "r = (now, nd)" by (cases r)
  have ip: "has_ip nd" using Cons.prems(2) by (simp add: r)
  let ?n = "next_node_id m"
  let ?m1 = "snd (register_node now nd m)"
  have skip: "skip_used_ids (nodes m) ?n = ?n"
    using Cons.prems(1) by (simp add: skip_id)
  have res: "fst (register_node now nd m) = Registered ?n"
    by (simp add: register_node_result [OF ip] Let_def skip)
  have nxt: "next_node_id ?m1 = ?n + 1"
    by (simp add: register_node_result [OF ip] Let_def skip)
  have fresh: "\<forall>i\<ge>next_node_id ?m1. \<not> has_key (Id i) (nodes ?m1)"
    using Cons.prems(1)
    by (simp add: register_node_result [OF ip] Let_def skip has_key_update)
  have rest: "list_all (\<lambda>(now, nd). has_ip nd) reqs" using Cons.prems(2) by simp
  have ih: "fst (register_all reqs ?m1) = map Registered [?n + 1..?n + 1 + int (length reqs) - 1]"
    using Cons.IH [OF fresh rest] by (simp add: nxt)
  have up: "[?n..?n + int (length (r # reqs)) - 1] = ?n # [?n + 1..?n + 1 + int (length reqs) - 1]"
    by (subst upto.simps) (simp add: algebra_simps)
  show ?case unfolding up using res ih
    by (simp add: r split_def Let_def)
qed

lemma node_offline_keys: "has_key k (nodes (snd (node_offline nd m))) \<longleftrightarrow> has_key k (nodes m)"
  by (simp add: node_offline_def Let_def has_key_map_entry)

text \<open>
  Claim C6. In a registry where every positive id below the counter is taken, a
  registration that passes the address guard is given the least positive integer that is
  not a key, and the device is stored under it with status online. Registering N devices
  into the empty registry yields the ids 1..N in order. After an offline notice for a
  tracked device, a registration gets an id different from that device's, and the device
  is still tracked.
\<close>

theorem register_allocates_smallest_unused:
  "(ids_dense m \<and> has_ip nd \<longrightarrow>
      (\<exists>nid node. register_node now nd m = (Registered nid, snd (register_node now nd m))
         \<and> 1 \<le> nid \<and> \<not> has_key (Id nid) (nodes m)
         \<and> (\<forall>i. 1 \<le> i \<and> i < nid \<longrightarrow> has_key (Id i) (nodes m))
         \<and> map_of (nodes (snd (register_node now nd m))) (Id nid) = Some node
         \<and> status node = Online \<and> node_id node = Id nid))
   \<and> (list_all (\<lambda>(now, nd). has_ip nd) reqs \<longrightarrow>
         fst (register_all reqs init_manager) = map Registered [1..int (length reqs)])
   \<and> (has_key k (nodes m) \<and> has_ip nd \<longrightarrow>
        (let m1 = snd (node_offline off m) in
           \<exists>nid. fst (register_node now nd m1) = Registered nid \<and> Id nid \<noteq> k
              \<and> has_key k (nodes (snd (register_node now nd m1)))))"
proof (intro conjI impI)
  assume "ids_dense m \<and> has_ip nd"
  then show "\<exists>nid node. register_node now nd m = (Registered nid, snd (register_node now nd m))
         \<and> 1 \<le> nid \<and> \<not> has_key (Id nid) (nodes m)
         \<and> (\<forall>i. 1 \<le> i \<and> i < nid \<longrightarrow> has_key (Id i) (nodes m))
         \<and> map_of (nodes (snd (register_node now nd m))) (Id nid) = Some node
         \<and> status node = Online \<and> node_id node = Id nid"
    using register_node_smallest by blast
next
  assume "list_all (\<lambda>(now, nd). has_ip nd) reqs"
  then show "fst (register_all reqs init_manager) = map Registered [1..int (length reqs)]"
    using register_all_fresh [of init_manager reqs]
    by (simp add: init_manager_def has_key_def)
next
  assume a: "has_key k (nodes m) \<and> has_ip nd"
  let ?m1 = "snd (node_offline off m)"
  let ?n = "skip_used_ids (nodes ?m1) (next_node_id ?m1)"
  have k1: "has_key k (nodes ?m1)" using a by (simp add: node_offline_keys)
  have "\<not> has_key (Id ?n) (nodes ?m1)" by (rule skip_fresh)
  then have ne: "Id ?n \<noteq> k" using k1 by auto
  have "fst (register_node now nd ?m1) = Registered ?n"
    "has_key k (nodes (snd (register_node now nd ?m1)))"
    using a k1 by (simp_all add: register_node_result Let_def has_key_update)
  then show "let m1 = snd (node_offline off m) in
           \<exists>nid. fst (register_node now nd m1) = Registered nid \<and> Id nid \<noteq> k
              \<and> has_key k (nodes (snd (register_node now nd m1)))"
    using ne by (simp add: Let_def)
qed

theorem register_allocates_smallest_unused_witness:
  "ids_dense ex_manager \<and> has_ip ex_request \<and> has_key (Id 2) (nodes ex_manager)
   \<and> list_all (\<lambda>(now, nd). has_ip nd) [(1, ex_request), (2, ex_request), (3, ex_request)]
   \<and> fst (register_node 50 ex_request ex_manager) = Registered 4
   \<and> fst (register_all [(1, ex_request), (2, ex_request), (3, ex_request)] init_manager)
        = [Registered 1, Registered 2, Registered 3]
   \<and> fst (register_node 50 ex_request (snd (node_offline (ex_notice (Id 2)) ex_manager)))
        \<noteq> Registered 2"
proof -
  have h1: "ids_dense ex_manager"
    by (simp add: ids_dense_def ex_manager_def has_key_def upto.simps)
  have h2: "has_ip ex_request" by (simp add: has_ip_def ex_request_def)
  have h3: "has_key (Id 2) (nodes ex_manager)" by (simp add: has_key_def ex_manager_def)
  have h4: "list_all (\<lambda>(now, nd). has_ip nd) [(1, ex_request), (2, ex_request), (3, ex_request)]"
    using h2 by simp
  have up: "[1..3] = [1, 2, 3::int]" by (simp add: upto.simps)
  have e1: "\<not> has_key (Id 4) (nodes ex_manager) \<and> has_key (Id 3) (nodes ex_manager)"
    by (simp add: has_key_def ex_manager_def)
  note T = register_allocates_smallest_unused
    [of ex_manager ex_request 50 "[(1, ex_request), (2, ex_request), (3, ex_request)]"
        "Id 2" "ex_notice (Id 2)"]
  have t2: "fst (register_all [(1, ex_request), (2, ex_request), (3, ex_request)] init_manager)
        = map Registered [1..int (length [(1::real, ex_request), (2, ex_request), (3, ex_request)])]"
    using conjunct1 [OF conjunct2 [OF T]] h4 by (rule mp)
  have t3: "let m1 = snd (node_offline (ex_notice (Id 2)) ex_manager) in
           \<exists>nid. fst (register_node 50 ex_request m1) = Registered nid \<and> Id nid \<noteq> Id 2
              \<and> has_key (Id 2) (nodes (snd (register_node 50 ex_request m1)))"
    using conjunct2 [OF conjunct2 [OF T]] h2 h3 by blast
  have t: "fst (register_all [(1, ex_request), (2, ex_request), (3, ex_request)] init_manager)
        = [Registered 1, Registered 2, Registered 3]"
    "fst (register_node 50 ex_request (snd (node_offline (ex_notice (Id 2)) ex_manager)))
        \<noteq> Registered 2"
    using t2 up apply simp
    using t3 by (auto simp: Let_def)
  have "fst (register_node 50 ex_request ex_manager) = Registered 4"
    by (simp add: register_node_result [OF h2] Let_def ex_manager_def has_key_def
        skip_used_ids.simps)
  then show ?thesis using h1 h2 h3 h4 t by simp
qed

section \<open>Clock synchronisation and scheduling: properties\<close>

lemma get_ntp_time_clock: "snd (get_ntp_time net s now) = snd (net s now)"
  by (simp add: get_ntp_time_def split: prod.splits option.splits)

lemma sync_loop_all_passed_over:
  "all_passed_over net srvs now \<Longrightarrow>
   sync_loop fl net srvs c now asked = (False, c, clock_after net srvs now, asked @ srvs)"
proof (induction srvs arbitrary: now asked)
  case Nil
  then show ?case by simp
next
  case (Cons s srvs)
  obtain r now' where q: "get_ntp_time net s now = (r, now')" by (cases "get_ntp_time net s now")
  have clk: "snd (net s now) = now'" using get_ntp_time_clock [of net s now] q by simp
  have skip: "r = None \<or> r = Some 0" and rest: "all_passed_over net srvs now'"
    using Cons.prems q by (auto split: option.splits)
  show ?case using Cons.IH [OF rest, of "asked @ [s]"] q skip clk by auto
qed

lemma sync_loop_first_answer:
  assumes "all_passed_over net pre now"
    and "get_ntp_time net s (clock_after net pre now) = (Some t, now')" and "t \<noteq> 0"
  shows "sync_loop fl net (pre @ s # post) c now asked =
           (True, c\<lparr>time_offset := fl (t - now'), last_sync := now'\<rparr>, now', asked @ pre @ [s])"
  using assms
proof (induction pre arbitrary: now asked)
  case Nil
  then show ?case by simp
next
  case (Cons p pre)
  obtain r now1 where q: "get_ntp_time net p now = (r, now1)" by (cases "get_ntp_time net p now")
  have clk: "snd (net p now) = now1" using get_ntp_time_clock [of net p now] q by simp
  have skip: "r = None \<or> r = Some 0" and rest: "all_passed_over net pre now1"
    using Cons.prems(1) q by (auto split: option.splits)
  have g: "get_ntp_time net s (clock_after net pre now1) = (Some t, now')"
    using Cons.prems(2) clk by simp
  show ?case using Cons.IH [OF rest g Cons.prems(3), of "asked @ [p]"] q skip by auto
qed

text \<open>Every run of \<^verbatim>\<open>sync_time\<close> is one of the two of the next theorem: either every
  source is passed over, or there is a first source that answers a time other than 0.\<close>

lemma passed_over_or_first_answer:
  "all_passed_over net srvs now \<or>
   (\<exists>pre s post t now'. srvs = pre @ s # post \<and> all_passed_over net pre now
      \<and> get_ntp_time net s (clock_after net pre now) = (Some t, now') \<and> t \<noteq> 0)"
proof (induction srvs arbitrary: now)
  case Nil
  then show ?case by simp
next
  case (Cons p srvs)
  obtain r now1 where q: "get_ntp_time net p now = (r, now1)" by (cases "get_ntp_time net p now")
  have clk: "snd (net p now) = now1" using get_ntp_time_clock [of net p now] q by simp
  show ?case
  proof (cases "r = None \<or> r = Some 0")
    case False
    then obtain t where t: "r = Some t" "t \<noteq> 0" by (cases r) auto
    have "p # srvs = [] @ p # srvs \<and> all_passed_over net [] now
          \<and> get_ntp_time net p (clock_after net [] now) = (Some t, now1) \<and> t \<noteq> 0"
      using q t by simp
    then show ?thesis by blast
  next
    case True
    then have head: "all_passed_over net (p # pre) now = all_passed_over net pre now1" for pre
      using q by auto
    from Cons.IH [of now1] show ?thesis
    proof
      assume "all_passed_over net srvs now1"
      then show ?thesis using head by simp
    next
      assume "\<exists>pre s post t now'. srvs = pre @ s # post \<and> all_passed_over net pre now1
          \<and> get_ntp_time net s (clock_after net pre now1) = (Some t, now') \<and> t \<noteq> 0"
      then obtain pre s post t now' where
        x: "srvs = pre @ s # post" "all_passed_over net pre now1"
           "get_ntp_time net s (clock_after net pre now1) = (Some t, now')" "t \<noteq> 0"
        by blast
      have "p # srvs = (p # pre) @ s # post \<and> all_passed_over net (p # pre) now
          \<and> get_ntp_time net s (clock_after net (p # pre) now) = (Some t, now') \<and> t \<noteq> 0"
        using x head clk by simp
      then show ?thesis by blast
    qed
  qed
qed

text \<open>
  Claim C5, as amended. \<^verbatim>\<open>sync_time\<close> asks the sources in list order and passes over
  each source that gives no answer or answers the time 0. If the sources before \<open>s\<close> are
  all passed over and \<open>s\<close> answers a time other than 0, the call returns success having
  asked exactly those sources and \<open>s\<close>, with the offset set to the answered time minus
  the local clock read after the answer arrived (a float subtraction), and \<^verbatim>\<open>last_sync\<close>
  set to that same reading. If every source is passed over, the call returns failure and
  the client (offset and \<^verbatim>\<open>last_sync\<close> included) is as before. Every call is one of
  these two.
\<close>

theorem sync_time_first_answer_or_unchanged:
  "(servers c = pre @ s # post \<and> all_passed_over net pre now
      \<and> get_ntp_time net s (clock_after net pre now) = (Some t, now') \<and> t \<noteq> 0 \<longrightarrow>
      sync_time fl net c now =
        (True, c\<lparr>time_offset := fl (t - now'), last_sync := now'\<rparr>, now', pre @ [s]))
   \<and> (all_passed_over net (servers c) now \<longrightarrow>
        sync_time fl net c now = (False, c, clock_after net (servers c) now, servers c))
   \<and> (all_passed_over net (servers c) now
        \<or> (\<exists>pre1 s1 post1 t1 now1. servers c = pre1 @ s1 # post1
              \<and> all_passed_over net pre1 now
              \<and> get_ntp_time net s1 (clock_after net pre1 now) = (Some t1, now1) \<and> t1 \<noteq> 0))"
proof (intro conjI impI)
  assume "servers c = pre @ s # post \<and> all_passed_over net pre now
      \<and> get_ntp_time net s (clock_after net pre now) = (Some t, now') \<and> t \<noteq> 0"
  then show "sync_time fl net c now =
        (True, c\<lparr>time_offset := fl (t - now'), last_sync := now'\<rparr>, now', pre @ [s])"
    by (simp add: sync_time_def sync_loop_first_answer)
next
  assume "all_passed_over net (servers c) now"
  then show "sync_time fl net c now = (False, c, clock_after net (servers c) now, servers c)"
    by (simp add: sync_time_def sync_loop_all_passed_over)
next
  show "all_passed_over net (servers c) now
        \<or> (\<exists>pre1 s1 post1 t1 now1. servers c = pre1 @ s1 # post1
              \<and> all_passed_over net pre1 now
              \<and> get_ntp_time net s1 (clock_after net pre1 now) = (Some t1, now1) \<and> t1 \<noteq> 0)"
    by (rule passed_over_or_first_answer)
qed

text \<open>
  Claim C5 as stated fails: the second source is asked at local time 995 and answers 1000
  one second later; the stored offset is 4 (answer minus the clock after the answer), not
  1000 - 995.
\<close>

theorem sync_offset_counterexample:
  "get_ntp_time ex_net ''b'' 995 = (Some 1000, 996)
   \<and> sync_time binade30 ex_net ex_client 990
       = (True, ex_client\<lparr>time_offset := 4, last_sync := 996\<rparr>, 996, [''a'', ''b''])
   \<and> time_offset (fst (snd (sync_time binade30 ex_net ex_client 990))) \<noteq> 1000 - 995"
  by (simp add: sync_time_def ex_client_def get_ntp_time_def ex_net_def binade30_def)

theorem sync_time_first_answer_or_unchanged_witness:
  "servers (ex_client\<lparr>servers := [''a'', ''z'', ''b'']\<rparr>) = [''a'', ''z''] @ ''b'' # []
   \<and> all_passed_over ex_net [''a'', ''z''] 990
   \<and> get_ntp_time ex_net ''b'' (clock_after ex_net [''a'', ''z''] 990) = (Some 1000, 998)
   \<and> (1000::real) \<noteq> 0
   \<and> sync_time binade30 ex_net (ex_client\<lparr>servers := [''a'', ''z'', ''b'']\<rparr>) 990
       = (True, ex_client\<lparr>servers := [''a'', ''z'', ''b''], time_offset := 2, last_sync := 998\<rparr>,
          998, [''a'', ''z'', ''b''])
   \<and> all_passed_over ex_net (servers (ex_client\<lparr>servers := [''z'', ''a'']\<rparr>)) 990
   \<and> sync_time binade30 ex_net (ex_client\<lparr>servers := [''z'', ''a'']\<rparr>) 990
       = (False, ex_client\<lparr>servers := [''z'', ''a'']\<rparr>, 997, [''z'', ''a''])"
proof -
  let ?c1 = "ex_client\<lparr>servers := [''a'', ''z'', ''b'']\<rparr>"
  let ?c2 = "ex_client\<lparr>servers := [''z'', ''a'']\<rparr>"
  have h1: "servers ?c1 = [''a'', ''z''] @ ''b'' # []" by (simp add: ex_client_def)
  have h2: "all_passed_over ex_net [''a'', ''z''] 990"
    by (simp add: ex_net_def get_ntp_time_def)
  have h3: "get_ntp_time ex_net ''b'' (clock_after ex_net [''a'', ''z''] 990) = (Some 1000, 998)"
    by (simp add: get_ntp_time_def ex_net_def)
  have h4: "all_passed_over ex_net (servers ?c2) 990"
    by (simp add: ex_net_def get_ntp_time_def)
  have c1: "sync_time binade30 ex_net ?c1 990
       = (True, ?c1\<lparr>time_offset := binade30 (1000 - 998), last_sync := 998\<rparr>, 998,
          [''a'', ''z''] @ [''b''])"
    using sync_time_first_answer_or_unchanged
      [where c = ?c1 and pre = "[''a'', ''z'']" and s = "''b''" and post = "[]" and net = ex_net
         and now = 990 and t = 1000 and now' = 998 and fl = binade30] h1 h2 h3 by simp
  have c2: "sync_time binade30 ex_net ?c2 990
       = (False, ?c2, clock_after ex_net (servers ?c2) 990, servers ?c2)"
    using sync_time_first_answer_or_unchanged
      [where c = ?c2 and pre = "[]" and s = "''a''" and post = "[]" and net = ex_net
         and now = 990 and t = 0 and now' = 0 and fl = binade30] h4 by blast
  have e: "clock_after ex_net (servers ?c2) 990 = 997" by (simp add: ex_net_def)
  have r: "binade30 (1000 - 998) = 2" by (simp add: binade30_def)
  show ?thesis using h1 h2 h3 h4 c1 c2 e r by simp
qed

lemma format_time_None: "format_time lib t = None \<longleftrightarrow> lib t = None"
  by (simp add: format_time_def)

lemma schedule_capture_eq:
  "schedule_capture fl lib net c now sid d =
     (let st = (if is_synchronized fl c now 300 then (c, now, [])
                else snd (sync_time fl net c now))
      in (if lib (planned_capture_time fl net c now d) = None then Inl Format_time_raised
          else Inr (planned_capture_time fl net c now d), st))"
  by (auto simp: schedule_capture_def planned_capture_time_def Let_def split_def
      format_time_def split: option.splits)

lemma float_rounding_binade30: "float_rounding binade30"
proof -
  have mono: "binade30 x \<le> binade30 y" if "x \<le> y" for x y
  proof -
    have "\<lfloor>x * 4194304 + 1 / 2\<rfloor> \<le> \<lfloor>y * 4194304 + 1 / 2\<rfloor>"
      using that by (intro floor_mono) simp
    then show ?thesis by (simp add: binade30_def divide_right_mono)
  qed
  have idem: "binade30 (binade30 x) = binade30 x" for x
  proof -
    have "\<lfloor>real_of_int \<lfloor>x * 4194304 + 1 / 2\<rfloor> + 1 / 2\<rfloor> = \<lfloor>x * 4194304 + 1 / 2\<rfloor>"
      by linarith
    then show ?thesis by (simp add: binade30_def)
  qed
  show ?thesis using mono idem by (simp add: float_rounding_def)
qed

text \<open>
  Claim C4, as amended. For a delay of at least 0, \<^verbatim>\<open>schedule_capture\<close> runs \<^verbatim>\<open>sync_time\<close>
  first exactly when the clock is not synchronized (maximum age 300 s); the capture time
  is the synchronized time read after that plus the delay (a float addition). The call
  returns it when the platform can format it as a date, and raises otherwise. The capture
  time is at least that synchronized time (and at least the synchronized time at entry when
  no sync was needed), and from the same state a larger delay gives a capture time that is
  not earlier.
\<close>

theorem schedule_capture_time:
  assumes "0 \<le> delay" and "float_rounding fl"
  shows "(let st = (if is_synchronized fl c now 300 then (c, now, [])
                    else snd (sync_time fl net c now));
              current_time = get_synchronized_time fl (fst st) (fst (snd st));
              capture_time = fl (current_time + delay);
              out = schedule_capture fl lib net c now sid delay
          in snd out = st
           \<and> (lib capture_time \<noteq> None \<longrightarrow> fst out = Inr capture_time)
           \<and> (lib capture_time = None \<longrightarrow> fst out = Inl Format_time_raised)
           \<and> current_time \<le> capture_time
           \<and> (is_synchronized fl c now 300 \<longrightarrow> get_synchronized_time fl c now \<le> capture_time)
           \<and> (\<forall>d' v'. delay \<le> d' \<and> fst (schedule_capture fl lib net c now sid d') = Inr v'
                  \<longrightarrow> capture_time \<le> v'))"
proof -
  let ?st = "if is_synchronized fl c now 300 then (c, now, []) else snd (sync_time fl net c now)"
  let ?cur = "get_synchronized_time fl (fst ?st) (fst (snd ?st))"
  have mono: "x \<le> y \<Longrightarrow> fl x \<le> fl y" for x y
    using assms(2) by (simp add: float_rounding_def)
  have fixed: "fl ?cur = ?cur"
    using assms(2) by (simp add: float_rounding_def get_synchronized_time_def)
  have plan: "planned_capture_time fl net c now d = fl (?cur + d)" for d
    by (simp add: planned_capture_time_def Let_def)
  have ge: "?cur \<le> fl (?cur + delay)"
    using mono [of ?cur "?cur + delay"] assms(1) fixed by simp
  have later: "fl (?cur + delay) \<le> v'"
    if "delay \<le> d'" "fst (schedule_capture fl lib net c now sid d') = Inr v'" for d' v'
  proof -
    have "v' = fl (?cur + d')"
      using that(2) by (simp add: schedule_capture_eq plan Let_def split: if_splits)
    then show ?thesis using mono [of "?cur + delay" "?cur + d'"] that(1) by simp
  qed
  have out: "schedule_capture fl lib net c now sid delay =
      (if lib (fl (?cur + delay)) = None then Inl Format_time_raised
       else Inr (fl (?cur + delay)), ?st)"
    by (simp add: schedule_capture_eq plan Let_def)
  have entry: "is_synchronized fl c now 300 \<Longrightarrow> get_synchronized_time fl c now \<le> fl (?cur + delay)"
    using ge by simp
  show ?thesis
    unfolding Let_def out
    using ge later entry by auto
qed

text \<open>
  Claim C4 as stated fails in three ways. A re-sync can lower the offset: the client was
  never synchronized and the local clock reads 1100, so the synchronized time at the
  moment of the call is 1100; the source answers 1000 and the call returns 1000.5. Float
  addition is not strictly increasing: at synchronized time 1762272000 the delays
  \<open>1e-8\<close> and \<open>2e-8\<close> give the same capture time. And for a delay of \<open>1e12\<close> seconds
  the log statement cannot format the capture time and the call raises.
\<close>

theorem schedule_capture_resync_counterexample:
  "fst (schedule_capture binade30 ex_datetime ex_net ex_client 1100 ''s'' (1/2)) = Inr (1000 + 1/2)
   \<and> get_synchronized_time binade30 ex_client 1100 = 1100
   \<and> (1/100000000 :: real) < 2/100000000
   \<and> fst (schedule_capture binade30 ex_datetime ex_net ex_client_synced 1762272000 ''s''
             (1/100000000)) = Inr 1762272000
   \<and> fst (schedule_capture binade30 ex_datetime ex_net ex_client_synced 1762272000 ''s''
             (2/100000000)) = Inr 1762272000
   \<and> fst (schedule_capture binade30 ex_datetime ex_net ex_client_synced 1762272000 ''s''
             1000000000000) = Inl Format_time_raised"
  by (simp add: schedule_capture_def is_synchronized_def sync_time_def ex_client_def
      ex_client_synced_def get_ntp_time_def ex_net_def get_synchronized_time_def Let_def
      binade30_def format_time_def ex_datetime_def)

theorem schedule_capture_time_witness:
  "(0::real) \<le> 1/2 \<and> float_rounding binade30
   \<and> snd (schedule_capture binade30 ex_datetime ex_net ex_client 990 ''s'' (1/2))
       = (ex_client\<lparr>time_offset := 4, last_sync := 996\<rparr>, 996, [''a'', ''b''])
   \<and> fst (schedule_capture binade30 ex_datetime ex_net ex_client 990 ''s'' (1/2))
       = Inr (2001/2)"
proof -
  let ?c1 = "ex_client\<lparr>time_offset := 4, last_sync := 996\<rparr>"
  have h: "(0::real) \<le> 1/2" by simp
  have s: "\<not> is_synchronized binade30 ex_client 990 300"
    by (simp add: is_synchronized_def ex_client_def)
  have y: "snd (sync_time binade30 ex_net ex_client 990) = (?c1, 996, [''a'', ''b''])"
    by (simp add: sync_time_def ex_client_def get_ntp_time_def ex_net_def binade30_def)
  have cur: "get_synchronized_time binade30 ?c1 996 = 1000"
    by (simp add: get_synchronized_time_def binade30_def)
  have ct: "binade30 (2001/2) = 2001/2" by (simp add: binade30_def)
  have l: "ex_datetime (2001/2) \<noteq> None" by (simp add: ex_datetime_def)
  note T = schedule_capture_time [OF h float_rounding_binade30, where c = ex_client
      and now = 990 and net = ex_net and lib = ex_datetime and sid = "''s''"]
  have a: "snd (schedule_capture binade30 ex_datetime ex_net ex_client 990 ''s'' (1/2))
       = (?c1, 996, [''a'', ''b''])"
    using T by (simp add: Let_def s y)
  have b: "ex_datetime (2001/2) \<noteq> None \<longrightarrow>
       fst (schedule_capture binade30 ex_datetime ex_net ex_client 990 ''s'' (1/2)) = Inr (2001/2)"
    using T by (simp add: Let_def s y cur ct)
  show ?thesis using h float_rounding_binade30 a b l by blast
qed

lemma wait_loop_fires:
  assumes "\<forall>j<n. clk (k + j) < t" and "t \<le> clk (k + n)"
  shows "wait_loop clk t (Some outcome) k trace =
           Some (trace @ map (\<lambda>j. Sleep (min 1 (t - clk j))) [k..<k + n] @ [Fire (clk (k + n))],
                 outcome = Raises)"
  using assms
proof (induction n arbitrary: k trace)
  case 0
  then show ?case by (subst wait_loop.simps) simp
next
  case (Suc n)
  have lt: "clk k < t" using Suc.prems(1) [rule_format, of 0] by simp
  have a: "\<forall>j<n. clk (Suc k + j) < t"
  proof (intro allI impI)
    fix j assume "j < n"
    then show "clk (Suc k + j) < t" using Suc.prems(1) [rule_format, of "Suc j"] by simp
  qed
  have b: "t \<le> clk (Suc k + n)" using Suc.prems(2) by simp
  have step: "wait_loop clk t (Some outcome) k trace
              = wait_loop clk t (Some outcome) (Suc k) (trace @ [Sleep (min 1 (t - clk k))])"
    using lt by (subst wait_loop.simps) (simp add: Let_def min_def)
  have up: "[k..<k + Suc n] = k # [Suc k..<Suc k + n]" by (simp add: upt_conv_Cons)
  show ?case unfolding step up using Suc.IH [OF a b] by simp
qed

lemma sleeps_reach:
  assumes "sleeps_elapse clk t"
  shows "\<exists>n. (\<forall>j<n. clk (k + j) < t) \<and> t \<le> clk (k + n)"
proof (induction "nat \<lceil>t - clk k\<rceil>" arbitrary: k rule: less_induct)
  case less
  show ?case
  proof (cases "t \<le> clk k")
    case True
    then have "(\<forall>j<0::nat. clk (k + j) < t) \<and> t \<le> clk (k + 0)" by simp
    then show ?thesis by blast
  next
    case False
    then have lt: "clk k < t" by simp
    then have adv: "clk k + min 1 (t - clk k) \<le> clk (Suc k)"
      using assms by (simp add: sleeps_elapse_def)
    have dec: "nat \<lceil>t - clk (Suc k)\<rceil> < nat \<lceil>t - clk k\<rceil>"
    proof (cases "1 \<le> t - clk k")
      case True
      then have "t - clk (Suc k) \<le> t - clk k - 1" using adv by (simp add: min_def)
      then have "\<lceil>t - clk (Suc k)\<rceil> \<le> \<lceil>t - clk k - 1\<rceil>" by (rule ceiling_mono)
      moreover have "0 < \<lceil>t - clk k\<rceil>" using lt by simp
      ultimately show ?thesis by simp
    next
      case False
      then have "t - clk (Suc k) \<le> 0" using adv by (simp add: min_def)
      then have "\<lceil>t - clk (Suc k)\<rceil> \<le> 0" by (simp add: ceiling_le_zero)
      moreover have "0 < \<lceil>t - clk k\<rceil>" using lt by simp
      ultimately show ?thesis by simp
    qed
    from less [OF dec] obtain n where n: "\<forall>j<n. clk (Suc k + j) < t" "t \<le> clk (Suc k + n)"
      by blast
    have "\<forall>j<Suc n. clk (k + j) < t"
    proof (intro allI impI)
      fix j assume j: "j < Suc n"
      show "clk (k + j) < t"
      proof (cases j)
        case 0
        then show ?thesis using lt by simp
      next
        case (Suc i)
        then show ?thesis using n(1) [rule_format, of i] j by simp
      qed
    qed
    moreover have "t \<le> clk (k + Suc n)" using n(2) by simp
    ultimately show ?thesis by blast
  qed
qed

text \<open>If every sleep lasts at least as long as asked, the clock reaches \<open>t\<close> at one of the
  readings of the wait.\<close>

lemma sleeps_elapse_reaches: "sleeps_elapse clk t \<Longrightarrow> \<exists>m. t \<le> clk m"
  using sleeps_reach [of clk t 0] by auto

lemma first_reading:
  fixes clk :: "nat \<Rightarrow> real"
  shows "t \<le> clk (k + m) \<Longrightarrow> \<exists>n\<le>m. (\<forall>j<n. clk (k + j) < t) \<and> t \<le> clk (k + n)"
proof (induction m)
  case 0
  then show ?case by simp
next
  case (Suc m)
  show ?case
  proof (cases "t \<le> clk (k + m)")
    case True
    from Suc.IH [OF this] obtain n where "n \<le> m" "\<forall>j<n. clk (k + j) < t" "t \<le> clk (k + n)"
      by blast
    then show ?thesis by (intro exI [of _ n]) simp
  next
    case False
    show ?thesis
    proof (cases "\<exists>j<m. t \<le> clk (k + j)")
      case True
      then obtain j where j: "j < m" "t \<le> clk (k + j)" by blast
      have "\<exists>n\<le>j. (\<forall>i<n. clk (k + i) < t) \<and> t \<le> clk (k + n)"
      proof (rule ccontr)
        assume no: "\<not> ?thesis"
        have "\<forall>i\<le>j. clk (k + i) < t"
        proof (intro allI impI)
          fix i show "i \<le> j \<Longrightarrow> clk (k + i) < t"
          proof (induction i rule: less_induct)
            case (less i)
            show ?case
            proof (rule ccontr)
              assume "\<not> clk (k + i) < t"
              then have "t \<le> clk (k + i)" by simp
              moreover have "\<forall>i'<i. clk (k + i') < t" using less by simp
              ultimately show False using no less.prems by blast
            qed
          qed
        qed
        then show False using j(2) by (meson leD order_refl)
      qed
      then obtain n where "n \<le> j" "\<forall>i<n. clk (k + i) < t" "t \<le> clk (k + n)" by blast
      then show ?thesis using j(1) by (intro exI [of _ n]) simp
    next
      case F: False
      have "\<forall>j<Suc m. clk (k + j) < t"
      proof (intro allI impI)
        fix j assume "j < Suc m"
        then show "clk (k + j) < t" using F False by (cases "j = m") (auto simp: not_le)
      qed
      then show ?thesis using Suc.prems by (intro exI [of _ "Suc m"]) simp
    qed
  qed
qed

lemma wait_loop_returns_reached:
  assumes "wait_loop clk t cb k trace = Some r"
  shows "\<exists>n. t \<le> clk (k + n)"
proof (rule wait_loop.raw_induct
    [where P = "\<lambda>clk t cb k trace r. \<exists>n. t \<le> clk (k + n)", OF _ assms])
  fix wl :: "(nat \<Rightarrow> real) \<Rightarrow> real \<Rightarrow> callback_outcome option \<Rightarrow> nat
             \<Rightarrow> wait_event list \<Rightarrow> (wait_event list \<times> bool) option"
  fix clk t cb k trace r
  assume ih: "\<And>clk t cb k trace r. wl clk t cb k trace = Some r \<Longrightarrow> \<exists>n. t \<le> clk (k + n)"
  assume body: "(let current_time = clk k; time_diff = t - current_time
      in if time_diff \<le> 0
         then case cb of None \<Rightarrow> Some (trace, False)
              | Some outcome \<Rightarrow> Some (trace @ [Fire current_time], outcome = Raises)
         else if 1 < time_diff then wl clk t cb (Suc k) (trace @ [Sleep 1])
              else wl clk t cb (Suc k) (trace @ [Sleep time_diff])) = Some r"
  show "\<exists>n. t \<le> clk (k + n)"
  proof (cases "t \<le> clk k")
    case True
    then have "t \<le> clk (k + 0)" by simp
    then show ?thesis by blast
  next
    case False
    then have "wl clk t cb (Suc k) (trace @ [Sleep 1]) = Some r
             \<or> wl clk t cb (Suc k) (trace @ [Sleep (t - clk k)]) = Some r"
      using body by (auto simp: Let_def split: if_splits)
    then obtain n where "t \<le> clk (Suc k + n)" using ih by blast
    then have "t \<le> clk (k + Suc n)" by simp
    then show ?thesis by blast
  qed
qed

text \<open>
  Claim C3. If the synchronized clock reaches \<open>t\<close> at one of the readings of the wait, the
  wait returns, and its trace is: for each reading before \<open>t\<close> a sleep of 1 second when
  more than 1 second remains and of the remainder otherwise, then the callback, once, at the
  first reading that is not before \<open>t\<close>. If the first reading is already at or past
  \<open>t\<close> the trace is the callback alone. If no reading ever reaches \<open>t\<close> the wait does
  not return (and the callback is not invoked early).
\<close>

theorem wait_fires_once_not_early:
  "(t \<le> clk m \<longrightarrow>
      (\<exists>n\<le>m. \<exists>trace.
          wait_for_capture_time clk t (Some outcome) = Some (trace, outcome = Raises)
        \<and> trace = map (\<lambda>j. Sleep (min 1 (t - clk j))) [0..<n] @ [Fire (clk n)]
        \<and> fires trace = 1
        \<and> t \<le> clk n \<and> (\<forall>j<n. clk j < t)
        \<and> (t \<le> clk 0 \<longrightarrow> trace = [Fire (clk 0)])))
   \<and> ((\<forall>n. clk n < t) \<longrightarrow> wait_for_capture_time clk t (Some outcome) = None)"
proof (intro conjI impI)
  assume "t \<le> clk m"
  then obtain n where n: "n \<le> m" "\<forall>j<n. clk j < t" "t \<le> clk n"
    using first_reading [of t clk 0 m] by auto
  let ?trace = "map (\<lambda>j. Sleep (min 1 (t - clk j))) [0..<n] @ [Fire (clk n)]"
  have w: "wait_for_capture_time clk t (Some outcome) = Some (?trace, outcome = Raises)"
    using wait_loop_fires [of n clk 0 t outcome "[]"] n by (simp add: wait_for_capture_time_def)
  have f: "fires ?trace = 1"
    by (simp add: fires_def filter_map comp_def)
  have p: "t \<le> clk 0 \<Longrightarrow> n = 0"
  proof (rule ccontr)
    assume "t \<le> clk 0" "n \<noteq> 0"
    then show False using n(2) [rule_format, of 0] by simp
  qed
  show "\<exists>n\<le>m. \<exists>trace.
          wait_for_capture_time clk t (Some outcome) = Some (trace, outcome = Raises)
        \<and> trace = map (\<lambda>j. Sleep (min 1 (t - clk j))) [0..<n] @ [Fire (clk n)]
        \<and> fires trace = 1
        \<and> t \<le> clk n \<and> (\<forall>j<n. clk j < t)
        \<and> (t \<le> clk 0 \<longrightarrow> trace = [Fire (clk 0)])"
    using w f n p by (intro exI [of _ n] conjI exI [of _ ?trace]) auto
next
  assume never: "\<forall>n. clk n < t"
  show "wait_for_capture_time clk t (Some outcome) = None"
  proof (cases "wait_for_capture_time clk t (Some outcome)")
    case None
    then show ?thesis .
  next
    case (Some r)
    then obtain n where "t \<le> clk (0 + n)"
      using wait_loop_returns_reached [of clk t "Some outcome" 0 "[]" r]
      by (auto simp: wait_for_capture_time_def)
    then show ?thesis using never [rule_format, of n] by simp
  qed
qed

theorem wait_fires_once_not_early_witness:
  "25/2 \<le> ex_clock 3
   \<and> wait_for_capture_time ex_clock (25/2) (Some Returns)
       = Some ([Sleep 1, Sleep 1, Sleep (1/2), Fire 13], False)
   \<and> fires [Sleep 1, Sleep 1, Sleep (1/2), Fire 13] = 1
   \<and> (\<forall>n. (\<lambda>k. 0) n < (1::real))
   \<and> wait_for_capture_time (\<lambda>k. 0) 1 (Some Returns) = None"
proof -
  have h: "25/2 \<le> ex_clock 3" by (simp add: ex_clock_def)
  have h': "\<forall>n. (\<lambda>k. 0) n < (1::real)" by simp
  note T = wait_fires_once_not_early [of "25/2" ex_clock 3 Returns]
  note T' = wait_fires_once_not_early [of 1 "\<lambda>k. 0" 0 Returns]
  from T h obtain trace where
    w: "wait_for_capture_time ex_clock (25/2) (Some Returns) = Some (trace, False)"
    and f: "fires trace = 1" by auto
  have e: "wait_for_capture_time ex_clock (25/2) (Some Returns)
       = Some ([Sleep 1, Sleep 1, Sleep (1/2), Fire 13], False)"
    by (simp add: wait_for_capture_time_def wait_loop.simps ex_clock_def Let_def)
  have z: "wait_for_capture_time (\<lambda>k. 0) 1 (Some Returns) = None"
    using T' h' by blast
  show ?thesis using h w f e z by simp
qed

section \<open>Readiness check and dispatch: properties\<close>

lemma update_fresh: "k \<notin> fst ` set al \<Longrightarrow> AList.update k v al = al @ [(k, v)]"
  by (induction al) auto

lemma wf_nodes_lookup:
  "wf_nodes d \<Longrightarrow> (k, node) \<in> set d \<Longrightarrow> map_of d k = Some node \<and> node_id node = k"
  by (auto simp: wf_nodes_def list_all_iff)

lemma check_node_ready_wf:
  assumes "wf_nodes d" and "(k, node) \<in> set d"
  shows "check_node_ready probe d (node_id node) = probe_ready probe node"
  using wf_nodes_lookup [OF assms]
  by (auto simp: check_node_ready_def probe_ready_def split: probe_reply.splits option.splits)

lemma wf_nodes_set_ready:
  "wf_nodes (seen @ (k, node) # rest) \<Longrightarrow> wf_nodes ((seen @ [(k, node\<lparr>is_ready := b\<rparr>)]) @ rest)"
  by (auto simp: wf_nodes_def)

lemma check_ready_scan_closed:
  assumes "wf_nodes (seen @ rest)" and "fst ` set rs \<inter> fst ` set rest = {}"
  shows "check_ready_scan probe seen rest rs =
           (rs @ map (\<lambda>(k, n). (k, probe_ready probe n)) rest,
            seen @ map (\<lambda>(k, n). (k, n\<lparr>is_ready := probe_ready probe n\<rparr>)) rest)"
  using assms
proof (induction rest arbitrary: seen rs)
  case Nil
  then show ?case by simp
next
  case (Cons e rest)
  obtain k node where e: "e = (k, node)" by (cases e)
  let ?r = "probe_ready probe node"
  have mem: "(k, node) \<in> set (seen @ (k, node) # rest)" by simp
  have wf: "wf_nodes (seen @ (k, node) # rest)" using Cons.prems(1) by (simp add: e)
  have nid: "node_id node = k" using wf_nodes_lookup [OF wf mem] by simp
  have chk: "check_node_ready probe (seen @ (k, node) # rest) (node_id node) = ?r"
    by (rule check_node_ready_wf [OF wf mem])
  have off: "status node \<noteq> Online \<Longrightarrow> ?r = False" by (simp add: probe_ready_def)
  have fresh: "k \<notin> fst ` set rs" using Cons.prems(2) by (auto simp: e)
  have step: "check_ready_scan probe seen (e # rest) rs
              = check_ready_scan probe (seen @ [(k, node\<lparr>is_ready := ?r\<rparr>)]) rest (rs @ [(k, ?r)])"
    using chk off by (auto simp: e nid Let_def update_fresh [OF fresh])
  have wf': "wf_nodes ((seen @ [(k, node\<lparr>is_ready := ?r\<rparr>)]) @ rest)"
    by (rule wf_nodes_set_ready [OF wf])
  have "k \<notin> fst ` set rest" using wf by (auto simp: wf_nodes_def)
  then have disj: "fst ` set (rs @ [(k, ?r)]) \<inter> fst ` set rest = {}"
    using Cons.prems(2) by (auto simp: e)
  show ?case unfolding step by (simp add: Cons.IH [OF wf' disj] e)
qed

lemma check_all_closed:
  assumes "wf_nodes (nodes m)"
  shows "check_all_nodes_ready probe m =
           (map (\<lambda>(k, n). (k, probe_ready probe n)) (nodes m),
            m\<lparr>nodes := map (\<lambda>(k, n). (k, n\<lparr>is_ready := probe_ready probe n\<rparr>)) (nodes m)\<rparr>)"
  using check_ready_scan_closed [of "[]" "nodes m" "[]" probe] assms
  by (simp add: check_all_nodes_ready_def)

lemma check_all_keys:
  assumes "wf_nodes (nodes m)"
  shows "map fst (fst (check_all_nodes_ready probe m)) = map fst (nodes m)"
    and "map fst (nodes (snd (check_all_nodes_ready probe m))) = map fst (nodes m)"
  by (simp_all add: check_all_closed [OF assms] comp_def split_def)

lemma ready_set_sub: "set (ready_set rs) \<subseteq> fst ` set rs"
  by (auto simp: ready_set_def)

lemma ready_set_distinct: "distinct (map fst rs) \<Longrightarrow> distinct (ready_set rs)"
  unfolding ready_set_def by (induction rs) (auto)

lemma send_to_all_closed:
  assumes "distinct ns" and "set ns \<inter> fst ` set results = {}"
    and "\<forall>k\<in>set ns. map_of d k \<noteq> None"
  shows "send_to_all send d cmd ns results posts =
           (results @ map (\<lambda>k. (k, send_flag (send (the (map_of d k)) cmd))) ns,
            posts @ map (\<lambda>k. (k, cmd)) ns)"
  using assms
proof (induction ns arbitrary: results posts)
  case Nil
  then show ?case by simp
next
  case (Cons k ns)
  from Cons.prems(3) obtain node where node: "map_of d k = Some node" by auto
  have one: "send_capture_command send d k cmd = (send_flag (send node cmd), [(k, cmd)])"
    by (simp add: send_capture_command_def node send_flag_def)
  have fresh: "k \<notin> fst ` set results" using Cons.prems(2) by auto
  have d: "distinct ns" using Cons.prems(1) by simp
  have disj: "set ns \<inter> fst ` set (results @ [(k, send_flag (send node cmd))]) = {}"
    using Cons.prems(1,2) by auto
  have rest: "\<forall>k\<in>set ns. map_of d k \<noteq> None" using Cons.prems(3) by simp
  show ?case
    by (simp add: one update_fresh [OF fresh] Cons.IH [OF d disj rest] node)
qed

lemma ready_set_probe:
  "ready_set (map (\<lambda>(k, n). (k, probe_ready probe n)) d)
   = map fst (filter (\<lambda>(k, n). probe_ready probe n) d)"
  by (induction d) (auto simp: ready_set_def)

lemma trigger_unfold:
  "trigger_scheduled_capture probe send fl lib net c now m delay =
     (let ready_status = fst (check_all_nodes_ready probe m);
          m1 = snd (check_all_nodes_ready probe m);
          ready_nodes = ready_set ready_status
      in if ready_nodes = [] then (Inr (No_ready_nodes ready_status), m1, c, [])
         else
           let session_id = generate_session_id now;
               capture_time = planned_capture_time fl net c now delay;
               c1 = fst (if is_synchronized fl c now 300 then (c, now, [])
                         else snd (sync_time fl net c now))
           in if lib capture_time = None then (Inl Format_time_raised, m1, c1, [])
              else
                let command = \<lparr>cmd_capture_time = capture_time, cmd_session_id = session_id,
                                cmd_delay_seconds = delay\<rparr>;
                    sent = send_to_all send (nodes m1) command ready_nodes [] []
                in (Inr (Capture_scheduled session_id capture_time ready_nodes (fst sent)
                           (the (format_time lib capture_time))), m1, c1, snd sent))"
  by (auto simp: trigger_scheduled_capture_def ready_set_def Let_def split_def
      schedule_capture_eq format_time_None split: option.splits)

lemma ex_manager_wf: "wf_nodes (nodes ex_manager)"
  by (simp add: wf_nodes_def ex_manager_def ex_node_def)

text \<open>
  Claim C1, as amended. If the readiness check leaves the ready set empty,
  \<^verbatim>\<open>trigger_scheduled_capture\<close> returns the failure result carrying the readiness map,
  issues no capture POST and leaves the clock client alone. The map has one entry, false,
  for each tracked device, in dict order; it is empty when the registry is.
\<close>

theorem trigger_without_ready_nodes:
  assumes "wf_nodes (nodes m)"
    and "ready_set (fst (check_all_nodes_ready probe m)) = []"
  shows "(let ready_status = fst (check_all_nodes_ready probe m);
              out = trigger_scheduled_capture probe send fl lib net c now m delay
          in out = (Inr (No_ready_nodes ready_status), snd (check_all_nodes_ready probe m), c, [])
           \<and> \<not> trigger_success (fst out)
           \<and> snd (snd (snd out)) = []
           \<and> map fst ready_status = map fst (nodes m)
           \<and> list_all (\<lambda>(nid, ready). \<not> ready) ready_status)"
proof -
  let ?rs = "fst (check_all_nodes_ready probe m)"
  have out: "trigger_scheduled_capture probe send fl lib net c now m delay
             = (Inr (No_ready_nodes ?rs), snd (check_all_nodes_ready probe m), c, [])"
    using assms(2) by (simp add: trigger_unfold Let_def)
  have keys: "map fst ?rs = map fst (nodes m)" by (rule check_all_keys(1) [OF assms(1)])
  have "filter (\<lambda>(nid, ready). ready) ?rs = []" using assms(2) by (simp add: ready_set_def)
  then have none: "list_all (\<lambda>(nid, ready). \<not> ready) ?rs"
    by (auto simp: list_all_iff filter_empty_conv)
  show ?thesis using out keys none by (simp add: Let_def trigger_success_def)
qed

text \<open>
  Claim C1 as stated fails for the registry with no device: the ready set is empty and the
  failure result carries an empty readiness map.
\<close>

theorem trigger_empty_registry_counterexample:
  "trigger_scheduled_capture ex_probe ex_send binade30 ex_datetime ex_net ex_client 990
     init_manager (1/2)
     = (Inr (No_ready_nodes []), init_manager, ex_client, [])"
  by (simp add: trigger_scheduled_capture_def check_all_nodes_ready_def init_manager_def)

theorem trigger_without_ready_nodes_witness:
  "wf_nodes (nodes ex_manager)
   \<and> ready_set (fst (check_all_nodes_ready ex_probe_down ex_manager)) = []
   \<and> fst (trigger_scheduled_capture ex_probe_down ex_send binade30 ex_datetime ex_net ex_client
             990 ex_manager (1/2))
       = Inr (No_ready_nodes [(Id 1, False), (Id 2, False), (Id 3, False)])
   \<and> snd (snd (snd (trigger_scheduled_capture ex_probe_down ex_send binade30 ex_datetime ex_net
                       ex_client 990 ex_manager (1/2)))) = []"
proof -
  have h1: "wf_nodes (nodes ex_manager)" by (rule ex_manager_wf)
  have rs: "fst (check_all_nodes_ready ex_probe_down ex_manager)
            = [(Id 1, False), (Id 2, False), (Id 3, False)]"
    by (subst check_all_closed [OF h1]) (simp add: probe_ready_def ex_probe_down_def ex_manager_def)
  have h2: "ready_set (fst (check_all_nodes_ready ex_probe_down ex_manager)) = []"
    by (simp add: rs ready_set_def)
  show ?thesis
    using h1 h2 rs
      trigger_without_ready_nodes [OF h1 h2, where send = ex_send and net = ex_net
        and c = ex_client and now = 990 and delay = "1/2" and fl = binade30
        and lib = ex_datetime]
    by (simp add: Let_def)
qed

text \<open>
  Claim C2, as amended. If the ready set of the readiness snapshot is not empty and the
  platform can format the capture time as a date, the result is the success result with
  that ready set; one capture POST is issued per device of the ready set, in its order and
  to no other device, whatever the replies are; every POST carries the same command (one
  capture time, one session id); and the outcome map has one boolean per device of the
  ready set, the flag of that device's reply. The ready set is the devices that were online
  and whose probe answered ready when the snapshot was taken.
\<close>

theorem trigger_sends_to_ready_set:
  assumes "wf_nodes (nodes m)"
    and "ready_set (fst (check_all_nodes_ready probe m)) \<noteq> []"
    and "lib (planned_capture_time fl net c now delay) \<noteq> None"
  shows "(let ready_nodes = ready_set (fst (check_all_nodes_ready probe m));
              m1 = snd (check_all_nodes_ready probe m);
              session_id = generate_session_id now;
              capture_time = planned_capture_time fl net c now delay;
              command = \<lparr>cmd_capture_time = capture_time, cmd_session_id = session_id,
                          cmd_delay_seconds = delay\<rparr>;
              out = trigger_scheduled_capture probe send fl lib net c now m delay
          in fst out = Inr (Capture_scheduled session_id capture_time ready_nodes
                         (map (\<lambda>k. (k, send_flag (send (the (map_of (nodes m1) k)) command)))
                              ready_nodes)
                         (the (format_time lib capture_time)))
           \<and> snd (snd (snd out)) = map (\<lambda>k. (k, command)) ready_nodes
           \<and> distinct ready_nodes
           \<and> ready_nodes = map fst (filter (\<lambda>(k, n). probe_ready probe n) (nodes m)))"
proof -
  let ?rs = "fst (check_all_nodes_ready probe m)"
  let ?m1 = "snd (check_all_nodes_ready probe m)"
  let ?ns = "ready_set ?rs"
  have keys: "map fst ?rs = map fst (nodes m)" "map fst (nodes ?m1) = map fst (nodes m)"
    by (rule check_all_keys [OF assms(1)])+
  have dist: "distinct ?ns"
    using assms(1) keys(1) by (intro ready_set_distinct) (simp add: wf_nodes_def)
  have sub: "set ?ns \<subseteq> set (map fst (nodes m))"
    using ready_set_sub [of ?rs] keys(1) by (metis set_map)
  have "\<forall>k\<in>set ?ns. k \<in> fst ` set (nodes ?m1)"
    using sub keys(2) by (metis set_map subsetD)
  then have known: "\<forall>k\<in>set ?ns. map_of (nodes ?m1) k \<noteq> None"
    by (simp add: map_of_eq_None_iff)
  have sent: "send_to_all send (nodes ?m1) cmd ?ns [] [] =
          (map (\<lambda>k. (k, send_flag (send (the (map_of (nodes ?m1) k)) cmd))) ?ns,
           map (\<lambda>k. (k, cmd)) ?ns)" for cmd
    using send_to_all_closed [OF dist _ known, of "[]" send cmd "[]"] by simp
  have snap: "?ns = map fst (filter (\<lambda>(k, n). probe_ready probe n) (nodes m))"
    by (simp add: check_all_closed [OF assms(1)] ready_set_probe)
  let ?sid = "generate_session_id now"
  let ?ct = "planned_capture_time fl net c now delay"
  let ?cmd = "\<lparr>cmd_capture_time = ?ct, cmd_session_id = ?sid, cmd_delay_seconds = delay\<rparr>"
  let ?out = "trigger_scheduled_capture probe send fl lib net c now m delay"
  have c1: "fst ?out = Inr (Capture_scheduled ?sid ?ct ?ns
                (map (\<lambda>k. (k, send_flag (send (the (map_of (nodes ?m1) k)) ?cmd))) ?ns)
                (the (format_time lib ?ct)))"
    using assms(2,3) by (simp add: trigger_unfold Let_def sent)
  have c2: "snd (snd (snd ?out)) = map (\<lambda>k. (k, ?cmd)) ?ns"
    using assms(2,3) by (simp add: trigger_unfold Let_def sent)
  show ?thesis unfolding Let_def
    by (intro conjI) (rule c1, rule c2, rule dist, rule snap)
qed

lemma ex_ready_set: "ready_set (fst (check_all_nodes_ready ex_probe ex_manager)) = [Id 1, Id 2]"
proof -
  have "fst (check_all_nodes_ready ex_probe ex_manager)
            = [(Id 1, True), (Id 2, True), (Id 3, False)]"
    by (subst check_all_closed [OF ex_manager_wf])
      (simp add: probe_ready_def ex_probe_def ex_manager_def ex_node_def)
  then show ?thesis by (simp add: ready_set_def)
qed

lemma ex_planned: "planned_capture_time binade30 ex_net ex_client 990 d = binade30 (1000 + d)"
  by (simp add: planned_capture_time_def is_synchronized_def sync_time_def ex_client_def
      get_ntp_time_def ex_net_def get_synchronized_time_def Let_def binade30_def)

text \<open>
  Claim C2 as stated fails for a delay of \<open>1e12\<close> seconds: two devices are ready, but the
  capture time lies past the year 9999, \<^verbatim>\<open>schedule_capture\<close> raises when its log statement
  formats it, and no capture POST is issued.
\<close>

theorem trigger_far_future_counterexample:
  "ready_set (fst (check_all_nodes_ready ex_probe ex_manager)) = [Id 1, Id 2]
   \<and> fst (trigger_scheduled_capture ex_probe ex_send binade30 ex_datetime ex_net ex_client 990
             ex_manager 1000000000000) = Inl Format_time_raised
   \<and> snd (snd (snd (trigger_scheduled_capture ex_probe ex_send binade30 ex_datetime ex_net
                       ex_client 990 ex_manager 1000000000000))) = []"
proof -
  have "binade30 (1000 + 1000000000000) = 1000000001000" by (simp add: binade30_def)
  then have "ex_datetime (planned_capture_time binade30 ex_net ex_client 990 1000000000000) = None"
    by (simp add: ex_planned ex_datetime_def)
  then show ?thesis using ex_ready_set by (simp add: trigger_unfold Let_def)
qed

theorem trigger_sends_to_ready_set_witness:
  "wf_nodes (nodes ex_manager)
   \<and> ready_set (fst (check_all_nodes_ready ex_probe ex_manager)) = [Id 1, Id 2]
   \<and> ex_datetime (planned_capture_time binade30 ex_net ex_client 990 (1/2))
       = Some ''2025-11-04 12:00:00.000000''
   \<and> fst (trigger_scheduled_capture ex_probe ex_send binade30 ex_datetime ex_net ex_client 990
             ex_manager (1/2))
       = Inr (Capture_scheduled (generate_session_id 990) (2001/2)
               [Id 1, Id 2] [(Id 1, False), (Id 2, True)] ''2025-11-04 12:00:00.000'')
   \<and> map fst (snd (snd (snd (trigger_scheduled_capture ex_probe ex_send binade30 ex_datetime
                                ex_net ex_client 990 ex_manager (1/2))))) = [Id 1, Id 2]
   \<and> map (cmd_capture_time \<circ> snd)
          (snd (snd (snd (trigger_scheduled_capture ex_probe ex_send binade30 ex_datetime ex_net
                            ex_client 990 ex_manager (1/2))))) = [2001/2, 2001/2]"
proof -
  have h1: "wf_nodes (nodes ex_manager)" by (rule ex_manager_wf)
  note ns = ex_ready_set
  then have h2: "ready_set (fst (check_all_nodes_ready ex_probe ex_manager)) \<noteq> []" by simp
  have m1: "map_of (nodes (snd (check_all_nodes_ready ex_probe ex_manager))) (Id 1)
              = Some (ex_node 1 Online 0 True)"
    "map_of (nodes (snd (check_all_nodes_ready ex_probe ex_manager))) (Id 2)
              = Some (ex_node 2 Online 100 True)"
    by (subst check_all_closed [OF h1],
        simp add: probe_ready_def ex_probe_def ex_manager_def ex_node_def)+
  have ct: "planned_capture_time binade30 ex_net ex_client 990 (1/2) = 2001/2"
    by (simp add: ex_planned binade30_def)
  have l: "ex_datetime (2001/2) = Some ''2025-11-04 12:00:00.000000''"
    by (simp add: ex_datetime_def)
  have h3: "ex_datetime (planned_capture_time binade30 ex_net ex_client 990 (1/2)) \<noteq> None"
    by (simp add: ct l)
  show ?thesis
    using h1 ns
      trigger_sends_to_ready_set [where lib = ex_datetime and fl = binade30 and net = ex_net
        and c = ex_client and now = 990 and delay = "1/2" and probe = ex_probe
        and m = ex_manager and send = ex_send, OF h1 h2 h3]
    by (simp add: Let_def ns m1 send_flag_def ex_send_def ex_node_def ct l format_time_def)
qed

section \<open>The registry's invariants\<close>

text \<open>The hypotheses \<open>wf_nodes\<close> and \<open>ids_dense\<close> of the properties above hold of every
  registry the manager's operations build.\<close>

lemma wf_nodes_map_entry:
  assumes "wf_nodes d" and "\<And>n. node_id (f n) = node_id n"
  shows "wf_nodes (AList.map_entry k f d)"
proof -
  have "list_all (\<lambda>(k, n). node_id n = k) d \<Longrightarrow>
        list_all (\<lambda>(k, n). node_id n = k) (AList.map_entry k f d)"
    by (induction d) (auto simp: assms(2))
  then show ?thesis using assms(1) by (simp add: wf_nodes_def distinct_map_entry)
qed

lemma wf_nodes_update:
  assumes "wf_nodes d" and "node_id n = k"
  shows "wf_nodes (AList.update k n d)"
proof -
  have "list_all (\<lambda>(k, n). node_id n = k) d \<Longrightarrow>
        list_all (\<lambda>(k, n). node_id n = k) (AList.update k n d)"
    by (induction d) (auto simp: assms(2))
  then show ?thesis using assms(1) by (simp add: wf_nodes_def distinct_update)
qed

lemma wf_nodes_map:
  assumes "wf_nodes d" and "\<And>e. fst (g e) = fst e"
    and "\<And>e. node_id (snd (g e)) = node_id (snd e)"
  shows "wf_nodes (map g d)"
proof -
  have "fst \<circ> g = fst" by (rule ext) (simp add: assms(2))
  then show ?thesis using assms(1)
    by (simp add: wf_nodes_def list_all_iff split_def assms(2,3))
qed

lemma wf_nodes_expire: "wf_nodes d \<Longrightarrow> wf_nodes (map (expire t) d)"
  by (rule wf_nodes_map) (simp_all add: expire_def)

lemma wf_nodes_probe:
  "wf_nodes d \<Longrightarrow> wf_nodes (map (\<lambda>(k, n). (k, n\<lparr>is_ready := g n\<rparr>)) d)"
  by (rule wf_nodes_map) (simp_all add: split_def)

lemma register_node_wf:
  assumes "wf_nodes (nodes m)"
  shows "wf_nodes (nodes (snd (register_node now nd m)))"
proof (cases "has_ip nd")
  case True
  then show ?thesis using assms
    by (simp add: register_node_result Let_def wf_nodes_update)
next
  case False
  then show ?thesis using assms by (auto simp: register_node_def has_ip_def Let_def)
qed

lemma node_online_wf:
  "wf_nodes (nodes m) \<Longrightarrow> wf_nodes (nodes (node_online now nd m))"
  by (simp add: node_online_def Let_def wf_nodes_map_entry wf_nodes_update)

lemma node_offline_wf:
  "wf_nodes (nodes m) \<Longrightarrow> wf_nodes (nodes (snd (node_offline nd m)))"
  by (simp add: node_offline_def Let_def wf_nodes_map_entry)

lemma update_heartbeat_wf:
  "wf_nodes (nodes m) \<Longrightarrow> wf_nodes (nodes (update_heartbeat now hb m))"
  by (simp add: update_heartbeat_def Let_def wf_nodes_map_entry)

lemma ids_dense_keys:
  assumes "ids_dense m" and "next_node_id m' = next_node_id m"
    and "\<And>k. has_key k (nodes m) \<Longrightarrow> has_key k (nodes m')"
  shows "ids_dense m'"
  using assms by (simp add: ids_dense_iff)

lemma has_key_map: "has_key k (map (\<lambda>e. (fst e, g e)) d) \<longleftrightarrow> has_key k d"
  by (simp add: has_key_def comp_def)

lemma node_online_dense: "ids_dense m \<Longrightarrow> ids_dense (node_online now nd m)"
  by (rule ids_dense_keys [of m])
    (simp_all add: node_online_def Let_def has_key_map_entry has_key_update)

lemma node_offline_dense: "ids_dense m \<Longrightarrow> ids_dense (snd (node_offline nd m))"
  by (rule ids_dense_keys [of m]) (simp_all add: node_offline_def Let_def has_key_map_entry)

lemma update_heartbeat_dense: "ids_dense m \<Longrightarrow> ids_dense (update_heartbeat now hb m)"
  by (rule ids_dense_keys [of m]) (simp_all add: update_heartbeat_def Let_def has_key_map_entry)

lemma scan_next: "next_node_id (heartbeat_scan t seen rest m) = next_node_id m"
  by (induction t seen rest m rule: heartbeat_scan.induct) (simp_all add: Let_def)

lemma has_key_expire: "has_key k (map (expire t) d) \<longleftrightarrow> has_key k d"
proof -
  have "fst \<circ> expire t = fst" by (rule ext) (simp add: expire_def)
  then show ?thesis by (simp add: has_key_def)
qed

lemma heartbeat_tick_dense: "ids_dense m \<Longrightarrow> ids_dense (heartbeat_tick t m)"
  by (rule ids_dense_keys [of m])
    (simp_all add: tick_nodes has_key_expire, simp add: heartbeat_tick_def scan_next)

lemma check_all_dense:
  assumes "wf_nodes (nodes m)" and "ids_dense m"
  shows "ids_dense (snd (check_all_nodes_ready probe m))"
proof (rule ids_dense_keys [OF assms(2)])
  show "next_node_id (snd (check_all_nodes_ready probe m)) = next_node_id m"
    by (simp add: check_all_closed [OF assms(1)])
next
  fix k assume "has_key k (nodes m)"
  then show "has_key k (nodes (snd (check_all_nodes_ready probe m)))"
    using check_all_keys(2) [OF assms(1), of probe] by (simp add: has_key_def)
qed

lemma reachable_invariant: "reachable m \<Longrightarrow> wf_nodes (nodes m) \<and> ids_dense m"
proof (induction rule: reachable.induct)
  case start
  show ?case by (simp add: init_manager_def wf_nodes_def ids_dense_def)
next
  case (register m now nd)
  then show ?case by (simp add: register_node_wf register_node_dense)
next
  case (online m now nd)
  then show ?case by (simp add: node_online_wf node_online_dense)
next
  case (offline m nd)
  then show ?case by (simp add: node_offline_wf node_offline_dense)
next
  case (heartbeat m now hb)
  then show ?case by (simp add: update_heartbeat_wf update_heartbeat_dense)
next
  case (monitor m now)
  then show ?case by (simp add: tick_nodes wf_nodes_expire heartbeat_tick_dense)
next
  case (check_ready m probe)
  then have wf: "wf_nodes (nodes m)" and dense: "ids_dense m" by simp_all
  have "wf_nodes (nodes (snd (check_all_nodes_ready probe m)))"
    by (simp add: check_all_closed [OF wf] wf_nodes_probe [OF wf])
  then show ?case using check_all_dense [OF wf dense] by simp
qed

section \<open>Device-side capture agent: properties\<close>

lemma capture_handler_rejects:
  "(\<exists>e. fst (capture_handler lib (Json data) srv) = Rejected 400 e) \<longleftrightarrow>
     (cb_capture_time data = None \<or> cb_capture_time data = Some 0
      \<or> cb_session_id data = None \<or> cb_session_id data = Some []
      \<or> \<not> camera_is_ready srv)"
  by (auto simp: capture_handler_def py_not_number_def py_not_string_def Let_def
      format_time_def split: option.splits)

lemma capture_handler_accepts:
  assumes "cb_capture_time data = Some t" "t \<noteq> 0" "cb_session_id data = Some sid" "sid \<noteq> []"
    "camera_is_ready srv" "lib t \<noteq> None"
  shows "capture_handler lib (Json data) srv =
           (Accepted sid t (config_node_id srv),
            srv\<lparr>scheduled_captures := AList.update sid (t, sid) (scheduled_captures srv)\<rparr>)"
  using assms
  by (auto simp: capture_handler_def py_not_number_def py_not_string_def Let_def format_time_def)

lemma execute_removes_entry:
  assumes "t \<le> clk m"
  shows "\<exists>srv2 trace log.
           execute_scheduled_capture clk cap upl srv t sid = Some (srv2, trace, log)
           \<and> fires trace = 1
           \<and> map_of (scheduled_captures srv2) = (map_of (scheduled_captures srv))(sid := None)"
proof -
  have ret: "snd (perform_capture cap upl) = Returns"
    by (simp add: perform_capture_def split: capture_result.splits)
  from first_reading [of t clk 0 m] assms obtain n where n: "\<forall>j<n. clk j < t" "t \<le> clk n"
    by auto
  let ?trace = "map (\<lambda>j. Sleep (min 1 (t - clk j))) [0..<n] @ [Fire (clk n)]"
  have w: "wait_for_capture_time clk t (Some Returns) = Some (?trace, False)"
    using wait_loop_fires [of n clk 0 t Returns "[]"] n by (simp add: wait_for_capture_time_def)
  have f: "fires ?trace = 1" by (simp add: fires_def filter_map comp_def)
  have keep: "\<not> has_key sid (scheduled_captures srv) \<Longrightarrow>
              map_of (scheduled_captures srv) = (map_of (scheduled_captures srv))(sid := None)"
  proof -
    assume "\<not> has_key sid (scheduled_captures srv)"
    then have "map_of (scheduled_captures srv) sid = None"
      using has_key_map_of [of sid "scheduled_captures srv"] by blast
    then show ?thesis by (intro ext) simp
  qed
  show ?thesis using f keep
    by (simp add: execute_scheduled_capture_def ret w delete_conv')
qed

text \<open>
  Claim C7, as amended. Take a body that is a JSON object whose \<^verbatim>\<open>capture_time\<close>, if
  present, is a non-zero number that the platform can format as a date, and whose
  \<^verbatim>\<open>session_id\<close>, if present, is a non-empty string. The handler answers 400 exactly when
  \<^verbatim>\<open>capture_time\<close> is absent, or \<^verbatim>\<open>session_id\<close> is absent, or the camera is not ready.
  Otherwise it answers success and stores the task under the session id; and if the
  synchronized clock reaches the capture time at one of the readings of that task's wait,
  the task ends, the callback has run once and the entry is gone, all other entries being
  as they were, whatever the capture and the upload did. A body that is not a JSON object
  is answered 500 and nothing is stored.
\<close>

theorem capture_handler_validates_and_cleans_up:
  assumes "cb_capture_time data \<noteq> Some 0"
    and "cb_session_id data \<noteq> Some []"
    and "\<forall>t'. cb_capture_time data = Some t' \<longrightarrow> lib t' \<noteq> None"
  shows "((\<exists>e. fst (capture_handler lib (Json data) srv) = Rejected 400 e) \<longleftrightarrow>
            (cb_capture_time data = None \<or> cb_session_id data = None \<or> \<not> camera_is_ready srv))
   \<and> (cb_capture_time data = Some t \<and> cb_session_id data = Some sid \<and> camera_is_ready srv \<longrightarrow>
        (let srv1 = snd (capture_handler lib (Json data) srv) in
           fst (capture_handler lib (Json data) srv) = Accepted sid t (config_node_id srv)
         \<and> map_of (scheduled_captures srv1) = (map_of (scheduled_captures srv))(sid \<mapsto> (t, sid))
         \<and> (t \<le> clk m \<longrightarrow>
              (\<exists>srv2 trace log.
                 execute_scheduled_capture clk cap upl srv1 t sid = Some (srv2, trace, log)
                 \<and> fires trace = 1
                 \<and> map_of (scheduled_captures srv2)
                     = (map_of (scheduled_captures srv1))(sid := None)))))
   \<and> capture_handler lib Not_json srv = (Rejected 500 Handler_exception, srv)"
proof (intro conjI impI)
  show "(\<exists>e. fst (capture_handler lib (Json data) srv) = Rejected 400 e) \<longleftrightarrow>
          (cb_capture_time data = None \<or> cb_session_id data = None \<or> \<not> camera_is_ready srv)"
    using assms(1,2) by (simp add: capture_handler_rejects)
next
  assume a: "cb_capture_time data = Some t \<and> cb_session_id data = Some sid \<and> camera_is_ready srv"
  then have "t \<noteq> 0" "sid \<noteq> []" "lib t \<noteq> None" using assms by auto
  with a have acc: "capture_handler lib (Json data) srv =
           (Accepted sid t (config_node_id srv),
            srv\<lparr>scheduled_captures := AList.update sid (t, sid) (scheduled_captures srv)\<rparr>)"
    by (intro capture_handler_accepts) auto
  show "let srv1 = snd (capture_handler lib (Json data) srv) in
           fst (capture_handler lib (Json data) srv) = Accepted sid t (config_node_id srv)
         \<and> map_of (scheduled_captures srv1) = (map_of (scheduled_captures srv))(sid \<mapsto> (t, sid))
         \<and> (t \<le> clk m \<longrightarrow>
              (\<exists>srv2 trace log.
                 execute_scheduled_capture clk cap upl srv1 t sid = Some (srv2, trace, log)
                 \<and> fires trace = 1
                 \<and> map_of (scheduled_captures srv2)
                     = (map_of (scheduled_captures srv1))(sid := None)))"
    using execute_removes_entry [of t clk m cap upl _ sid]
    by (simp add: acc Let_def update_conv')
next
  show "capture_handler lib Not_json srv = (Rejected 500 Handler_exception, srv)"
    by (simp add: capture_handler_def)
qed

text \<open>
  Claim C7 as stated fails on a ready device in three ways. A body that is not a JSON
  object is answered 500. A command with both fields present, \<^verbatim>\<open>capture_time\<close> being 0, is
  answered 400. A command with both fields present whose \<^verbatim>\<open>capture_time\<close> is \<open>1e12\<close>, past
  the year 9999, is answered 500 although its task has been stored.
\<close>

theorem capture_handler_counterexample:
  "camera_is_ready ex_server
   \<and> capture_handler ex_datetime Not_json ex_server = (Rejected 500 Handler_exception, ex_server)
   \<and> cb_capture_time \<lparr>cb_capture_time = Some 0, cb_session_id = Some ''s1''\<rparr> \<noteq> None
   \<and> cb_session_id \<lparr>cb_capture_time = Some 0, cb_session_id = Some ''s1''\<rparr> \<noteq> None
   \<and> capture_handler ex_datetime
         (Json \<lparr>cb_capture_time = Some 0, cb_session_id = Some ''s1''\<rparr>) ex_server
       = (Rejected 400 Missing_parameters, ex_server)
   \<and> capture_handler ex_datetime
         (Json \<lparr>cb_capture_time = Some 1000000000000, cb_session_id = Some ''s1''\<rparr>) ex_server
       = (Rejected 500 Handler_exception,
          ex_server\<lparr>scheduled_captures :=
                      [(''old'', (5, ''old'')), (''s1'', (1000000000000, ''s1''))]\<rparr>)"
  by (simp add: capture_handler_def py_not_number_def py_not_string_def camera_is_ready_def
      ex_server_def format_time_def ex_datetime_def)

theorem capture_handler_validates_and_cleans_up_witness:
  "cb_capture_time \<lparr>cb_capture_time = Some (25/2), cb_session_id = Some ''s1''\<rparr> = Some (25/2)
   \<and> (25/2 :: real) \<noteq> 0
   \<and> ex_datetime (25/2) = Some ''2025-11-04 12:00:00.000000''
   \<and> cb_session_id \<lparr>cb_capture_time = Some (25/2), cb_session_id = Some ''s1''\<rparr> = Some ''s1''
   \<and> ''s1'' \<noteq> []
   \<and> camera_is_ready ex_server \<and> 25/2 \<le> ex_clock 3
   \<and> capture_handler ex_datetime
         (Json \<lparr>cb_capture_time = Some (25/2), cb_session_id = Some ''s1''\<rparr>) ex_server
       = (Accepted ''s1'' (25/2) (Id 1),
          ex_server\<lparr>scheduled_captures := [(''old'', (5, ''old'')), (''s1'', (25/2, ''s1''))]\<rparr>)
   \<and> execute_scheduled_capture ex_clock (Image_path ''a.jpg'') Upload_raises
        (ex_server\<lparr>scheduled_captures := [(''old'', (5, ''old'')), (''s1'', (25/2, ''s1''))]\<rparr>)
        (25/2) ''s1''
       = Some (ex_server, [Sleep 1, Sleep 1, Sleep (1/2), Fire 13],
               [Log_captured ''a.jpg'', Log_upload_exception])
   \<and> fst (capture_handler ex_datetime
         (Json \<lparr>cb_capture_time = None, cb_session_id = Some ''s1''\<rparr>) ex_server)
       = Rejected 400 Missing_parameters"
proof -
  let ?data = "\<lparr>cb_capture_time = Some (25/2), cb_session_id = Some ''s1''\<rparr>"
  let ?srv1 = "ex_server\<lparr>scheduled_captures := [(''old'', (5, ''old'')), (''s1'', (25/2, ''s1''))]\<rparr>"
  have h: "camera_is_ready ex_server" by (simp add: camera_is_ready_def ex_server_def)
  have k: "25/2 \<le> ex_clock 3" by (simp add: ex_clock_def)
  have l: "ex_datetime (25/2) = Some ''2025-11-04 12:00:00.000000''"
    by (simp add: ex_datetime_def)
  have a1: "cb_capture_time ?data \<noteq> Some 0" by simp
  have a2: "cb_session_id ?data \<noteq> Some []" by simp
  have a3: "\<forall>t'. cb_capture_time ?data = Some t' \<longrightarrow> ex_datetime t' \<noteq> None"
    by (simp add: ex_datetime_def)
  have w: "wait_for_capture_time ex_clock (25/2) (Some Returns)
       = Some ([Sleep 1, Sleep 1, Sleep (1/2), Fire 13], False)"
    by (simp add: wait_for_capture_time_def wait_loop.simps ex_clock_def Let_def)
  have ex: "execute_scheduled_capture ex_clock (Image_path ''a.jpg'') Upload_raises ?srv1 (25/2) ''s1''
       = Some (ex_server, [Sleep 1, Sleep 1, Sleep (1/2), Fire 13],
               [Log_captured ''a.jpg'', Log_upload_exception])"
    by (simp add: execute_scheduled_capture_def perform_capture_def upload_image_to_master_def w
        has_key_def ex_server_def AList.delete_eq)
  have rej: "fst (capture_handler ex_datetime
         (Json \<lparr>cb_capture_time = None, cb_session_id = Some ''s1''\<rparr>) ex_server)
       = Rejected 400 Missing_parameters"
    by (simp add: capture_handler_def py_not_number_def)
  from capture_handler_validates_and_cleans_up
    [where data = ?data and lib = ex_datetime and srv = ex_server and t = "25/2"
       and sid = "''s1''" and clk = ex_clock and m = 3
       and cap = "Image_path ''a.jpg''" and upl = Upload_raises, OF a1 a2 a3]
  have "fst (capture_handler ex_datetime (Json ?data) ex_server) = Accepted ''s1'' (25/2) (Id 1)
        \<and> map_of (scheduled_captures (snd (capture_handler ex_datetime (Json ?data) ex_server)))
            = (map_of (scheduled_captures ex_server))(''s1'' \<mapsto> (25/2, ''s1''))"
    using h k by (simp add: Let_def ex_server_def)
  moreover have "snd (capture_handler ex_datetime (Json ?data) ex_server) = ?srv1"
    by (simp add: capture_handler_def py_not_number_def py_not_string_def camera_is_ready_def
        ex_server_def format_time_def ex_datetime_def)
  ultimately have acc: "capture_handler ex_datetime (Json ?data) ex_server
                        = (Accepted ''s1'' (25/2) (Id 1), ?srv1)"
    by (simp add: prod_eq_iff)
  show ?thesis using h k l acc ex rej by simp
qed

end
